theory Spec2Isabelle
  imports Complex_Main "HOL-Library.Word" "HOL-Library.AList" "HOL-Library.Signed_Division"
begin

section \<open>Codec selection by file name (internal/codec/reader.go, autoCodec)\<close>

text \<open>
  Go's \<^verbatim>\<open>filepath.Ext\<close> walks the path backwards from its last byte, stops at a path
  separator, and returns the text from the first dot it meets to the end of the path; it
  returns the empty string when it meets no dot. \<open>Ext_scan rest acc\<close> is that loop:
  \<open>rest\<close> is the part of the path not yet visited, reversed, and \<open>acc\<close> the part already
  walked over.
\<close>

fun Ext_scan :: "string \<Rightarrow> string \<Rightarrow> string" where
  "Ext_scan [] acc = []"
| "Ext_scan (c # cs) acc =
     (if c = CHR ''/'' then []
      else if c = CHR ''.'' then c # acc
      else Ext_scan cs (c # acc))"

definition Ext :: "string \<Rightarrow> string" where
  "Ext path = Ext_scan (rev path) []"

text \<open>Go's \<^verbatim>\<open>strings.HasSuffix\<close>.\<close>

definition HasSuffix :: "string \<Rightarrow> string \<Rightarrow> bool" where
  "HasSuffix s suffix =
     (length s \<ge> length suffix \<and> drop (length s - length suffix) s = suffix)"

text \<open>
  The codec name that \<^verbatim>\<open>autoCodec\<close> computes from the path before it hands it to
  \<^verbatim>\<open>GetReader\<close>: a switch on the extension, then two suffix tests that override it.
\<close>

definition autoCodec_codec :: "string \<Rightarrow> string" where
  "autoCodec_codec path =
     (let e = Ext path;
          codec = (if e = ''.csv'' then ''csv''
                   else if e = ''.csv.gz'' \<or> e = ''.csv.gzip'' then ''gzip/csv''
                   else if e = ''.tar'' then ''tar''
                   else if e = ''.tgz'' then ''gzip/tar''
                   else ''all-bytes'')
      in if HasSuffix path ''.tar.gzip'' then ''gzip/tar''
         else if HasSuffix path ''.tar.gz'' then ''gzip/tar''
         else codec)"

section \<open>The slice method (internal/bloblang/query/methods_structured.go)\<close>

text \<open>
  Dynamic values. The float payload is a type parameter: no claim below depends on how
  floats round. Strings and byte slices are byte lists, as Go's \<^verbatim>\<open>len\<close> and slicing see
  them.
\<close>

datatype 'f val =
    VNull
  | VBool bool
  | VFloat 'f
  | VInt "64 word"
  | VUint "64 word"
  | VNumber string
  | VString string
  | VBytes string
  | VArray "'f val list"
  | VObject "(string \<times> 'f val) list"
  | VDelete
  | VNothing

datatype ValueType =
    ValueString | ValueBytes | ValueNumber | ValueBool | ValueArray | ValueObject
  | ValueNull | ValueDelete | ValueNothing | ValueUnknown

datatype 'f qerror =
    ErrSliceStatic int int
      \<comment> \<open>"lower slice bound %v must be lower than upper (%v)"\<close>
  | ErrSliceDynamic int int int
      \<comment> \<open>"lower slice bound %v must be lower than or equal to upper bound (%v) and target length (%v)"\<close>
  | TypeError "'f val" "ValueType list"
      \<comment> \<open>\<^verbatim>\<open>NewTypeError(v, kinds...)\<close>\<close>
  | TypeErrorFrom string "'f val" "ValueType list"
      \<comment> \<open>\<^verbatim>\<open>NewTypeErrorFrom(annotation, v, kinds...)\<close>\<close>
  | ErrIndex nat "'f qerror"
      \<comment> \<open>"index %v: %w"\<close>
  | ErrOtherQ string
  | PanicSliceBounds
      \<comment> \<open>the run-time panic of a Go slice expression whose bounds are out of range\<close>

text \<open>
  The closure \<^verbatim>\<open>getBounds\<close>. The bounds are Go \<^verbatim>\<open>int64\<close>; they are modelled as
  unbounded integers because the only additions are of a length (non-negative) and a
  negative bound, which cannot leave the 64-bit range.
\<close>

definition getBounds :: "int \<Rightarrow> int option \<Rightarrow> int \<Rightarrow> 'f qerror + (int \<times> int)" where
  "getBounds start end l =
     (let endV0 = (case end of
                     None \<Rightarrow> l
                   | Some e \<Rightarrow> if e < 0 then l + e else e);
          endV1 = (if endV0 > l then l else endV0);
          endV = (if endV1 < 0 then 0 else endV1);
          startV = (if start < 0
                    then (if l + start < 0 then 0 else l + start)
                    else start)
      in if startV > endV then Inl (ErrSliceDynamic startV endV l)
         else Inr (startV, endV))"

text \<open>A Go slice expression \<^verbatim>\<open>t[lo:hi]\<close>, which panics unless \<open>0 \<le> lo \<le> hi \<le> len t\<close>.\<close>

definition go_slice :: "'a list \<Rightarrow> int \<Rightarrow> int \<Rightarrow> 'a list option" where
  "go_slice t lo hi =
     (if 0 \<le> lo \<and> lo \<le> hi \<and> hi \<le> int (length t)
      then Some (take (nat (hi - lo)) (drop (nat lo) t))
      else None)"

definition slice_exec :: "int \<Rightarrow> int option \<Rightarrow> 'f val \<Rightarrow> 'f qerror + 'f val" where
  "slice_exec start end v =
     (case v of
        VString t \<Rightarrow>
          (case getBounds start end (int (length t)) of
             Inl err \<Rightarrow> Inl err
           | Inr (s, e) \<Rightarrow>
               (case go_slice t s e of None \<Rightarrow> Inl PanicSliceBounds
                                     | Some r \<Rightarrow> Inr (VString r)))
      | VBytes t \<Rightarrow>
          (case getBounds start end (int (length t)) of
             Inl err \<Rightarrow> Inl err
           | Inr (s, e) \<Rightarrow>
               (case go_slice t s e of None \<Rightarrow> Inl PanicSliceBounds
                                     | Some r \<Rightarrow> Inr (VBytes r)))
      | VArray t \<Rightarrow>
          (case getBounds start end (int (length t)) of
             Inl err \<Rightarrow> Inl err
           | Inr (s, e) \<Rightarrow>
               (case go_slice t s e of None \<Rightarrow> Inl PanicSliceBounds
                                     | Some r \<Rightarrow> Inr (VArray r)))
      | _ \<Rightarrow> Inl (TypeError v [ValueArray, ValueString]))"

text \<open>
  \<^verbatim>\<open>sliceMethod\<close>: the constructor checks the literal bounds once, then returns the
  method closure. The optional second argument is \<open>None\<close> when omitted.
\<close>

definition sliceMethod ::
  "int \<Rightarrow> int option \<Rightarrow> 'f qerror + ('f val \<Rightarrow> 'f qerror + 'f val)" where
  "sliceMethod start end =
     (case end of
        Some endV \<Rightarrow>
          if endV > 0 \<and> start \<ge> endV then Inl (ErrSliceStatic start endV)
          else Inr (slice_exec start end)
      | None \<Rightarrow> Inr (slice_exec start end))"

text \<open>\<open>slice x i j\<close>: construct the method from the bounds, then apply it to \<open>x\<close>.\<close>

definition slice :: "'f val \<Rightarrow> int \<Rightarrow> int option \<Rightarrow> 'f qerror + 'f val" where
  "slice x i j = (case sliceMethod i j of Inl err \<Rightarrow> Inl err | Inr m \<Rightarrow> m x)"

text \<open>The length of a string, byte slice or array value; \<open>None\<close> for the other kinds.\<close>

fun seq_len :: "'f val \<Rightarrow> int option" where
  "seq_len (VString t) = Some (int (length t))"
| "seq_len (VBytes t) = Some (int (length t))"
| "seq_len (VArray t) = Some (int (length t))"
| "seq_len _ = None"

text \<open>
  The length the specification states for \<open>slice(x, i, j)\<close>, written from its words:
  \<open>max(0, min(j,|x|) - max(i + |x|\<cdot>[i<0], 0))\<close>, with \<open>j\<close> defaulting to \<open>|x|\<close>.
\<close>

definition spec_slice_length :: "int \<Rightarrow> int \<Rightarrow> int option \<Rightarrow> int" where
  "spec_slice_length l i j =
     max 0 (min (case j of None \<Rightarrow> l | Some j' \<Rightarrow> j') l
            - max (i + l * (if i < 0 then 1 else 0)) 0)"

text \<open>The bounds the code resolves, as closed formulas.\<close>

definition resolved_upper :: "int \<Rightarrow> int option \<Rightarrow> int" where
  "resolved_upper l j =
     (case j of None \<Rightarrow> l | Some j' \<Rightarrow> if j' < 0 then max 0 (l + j') else min j' l)"

definition resolved_lower :: "int \<Rightarrow> int \<Rightarrow> int" where
  "resolved_lower l i = max (i + l * (if i < 0 then 1 else 0)) 0"

section \<open>Codec readers and their acknowledgements (internal/codec/reader.go)\<close>

text \<open>
  Errors of the codec package: \<^verbatim>\<open>io.EOF\<close>, the error \<^verbatim>\<open>"service shutting down"\<close> that
  \<^verbatim>\<open>Close\<close> creates, any other error of the byte source, an error wrapping another
  one (what \<^verbatim>\<open>errors.Is\<close> looks through), and two run-time panics, which end the
  call they occur in: an index out of range, and the call of a nil function.
\<close>

datatype error =
    EOF
  | ErrShutdown
  | ErrIO string
  | ErrWrap string error
  | PanicIndex
  | PanicNilDeref

fun errors_Is_EOF :: "error \<Rightarrow> bool" where
  "errors_Is_EOF EOF = True"
| "errors_Is_EOF (ErrWrap msg e) = errors_Is_EOF e"
| "errors_Is_EOF _ = False"

text \<open>
  A \<^verbatim>\<open>ReaderAckFn\<close> takes an error or nil (\<open>None\<close>) and returns one. The source
  acknowledgement handed to a constructor is any such function; \<open>calls\<close> below records,
  oldest first, the argument of every invocation of it.

  The fields that \<^verbatim>\<open>linesReader\<close>, \<^verbatim>\<open>csvReader\<close>, \<^verbatim>\<open>customDelimReader\<close>,
  \<^verbatim>\<open>chunkerReader\<close> and \<^verbatim>\<open>tarReader\<close> share: the \<^verbatim>\<open>sync.Once\<close> inside the closure
  that \<^verbatim>\<open>ackOnce\<close> returns (\<open>once\<close> holds when it has run), \<^verbatim>\<open>finished\<close> and the
  \<^verbatim>\<open>int32\<close> counter \<^verbatim>\<open>pending\<close>. Each method runs as one step: the mutex of the
  readers is not modelled.
\<close>

type_synonym ReaderAckFn = "error option \<Rightarrow> error option"

record reader_st =
  once :: bool
  finished :: bool
  pending :: "32 word"
  calls :: "error option list"

definition new_reader :: reader_st where
  "new_reader = \<lparr>once = False, finished = False, pending = 0, calls = []\<rparr>"

text \<open>\<^verbatim>\<open>ackOnce(fn)\<close>, the value of the field \<^verbatim>\<open>sourceAck\<close>.\<close>

definition ackOnce ::
  "ReaderAckFn \<Rightarrow> error option \<Rightarrow> reader_st \<Rightarrow> error option \<times> reader_st" where
  "ackOnce fn err s =
     (if once s then (None, s)
      else (fn err, s\<lparr>once := True, calls := calls s @ [err]\<rparr>))"

text \<open>
  The methods \<^verbatim>\<open>ack\<close> and \<^verbatim>\<open>Close\<close> have the same text in the five readers; one
  definition of each stands for the five. The value \<^verbatim>\<open>Close\<close> returns is that of
  closing the byte source, which is outside the model.
\<close>

definition partReader_ack ::
  "ReaderAckFn \<Rightarrow> error option \<Rightarrow> reader_st \<Rightarrow> error option \<times> reader_st" where
  "partReader_ack fn err s =
     (let s1 = s\<lparr>pending := pending s - 1\<rparr>;
          doAck = (pending s1 = 0 \<and> finished s1)
      in if err \<noteq> None then ackOnce fn err s1
         else if doAck then ackOnce fn None s1
         else (None, s1))"

definition partReader_Close :: "ReaderAckFn \<Rightarrow> reader_st \<Rightarrow> reader_st" where
  "partReader_Close fn s =
     (let s1 = (if \<not> finished s then snd (ackOnce fn (Some ErrShutdown) s) else s)
      in if pending s1 = 0 then snd (ackOnce fn None s1) else s1)"

text \<open>
  What \<^verbatim>\<open>Next\<close> returns: the parts (with the reader's \<^verbatim>\<open>ack\<close> method as their
  acknowledgement), an error, or three nils.
\<close>

datatype 'p next_result = NextParts "'p list" | NextErr error | NextNil

text \<open>
  The byte source is the environment: every call of \<^verbatim>\<open>Next\<close> is given what the read
  underneath it returned. For the scanner of \<^verbatim>\<open>linesReader\<close> and
  \<^verbatim>\<open>customDelimReader\<close> that is a token, or the end of the scan with the value of
  \<^verbatim>\<open>buf.Err()\<close>.
\<close>

datatype scan_result = Scanned string | ScanStop "error option"

definition linesReader_Next ::
  "ReaderAckFn \<Rightarrow> scan_result \<Rightarrow> reader_st \<Rightarrow> string next_result \<times> reader_st" where
  "linesReader_Next fn scanned s =
     (case scanned of
        Scanned bytes \<Rightarrow> (NextParts [bytes], s\<lparr>pending := pending s + 1\<rparr>)
      | ScanStop None \<Rightarrow> (NextErr EOF, s\<lparr>finished := True\<rparr>)
      | ScanStop (Some err) \<Rightarrow> (NextErr err, snd (ackOnce fn (Some err) s)))"

definition customDelimReader_Next ::
  "ReaderAckFn \<Rightarrow> scan_result \<Rightarrow> reader_st \<Rightarrow> string next_result \<times> reader_st" where
  "customDelimReader_Next fn scanned s =
     (case scanned of
        Scanned bytes \<Rightarrow> (NextParts [bytes], s\<lparr>pending := pending s + 1\<rparr>)
      | ScanStop None \<Rightarrow> (NextErr EOF, s\<lparr>finished := True\<rparr>)
      | ScanStop (Some err) \<Rightarrow> (NextErr err, snd (ackOnce fn (Some err) s)))"

text \<open>
  \<^verbatim>\<open>csvReader.Next\<close>: \<^verbatim>\<open>scanner.Read()\<close> returns a record or an error. The part holds
  the object that maps each header to the field at its position; indexing the headers
  beyond their length panics, after \<^verbatim>\<open>pending\<close> was incremented.
\<close>

datatype csv_result = CsvRecord "string list" | CsvErr error

definition csvReader_Next ::
  "string list \<Rightarrow> ReaderAckFn \<Rightarrow> csv_result \<Rightarrow> reader_st
     \<Rightarrow> (string \<times> string) list next_result \<times> reader_st" where
  "csvReader_Next headers fn rd s =
     (case rd of
        CsvErr err \<Rightarrow>
          if err = EOF then (NextErr err, s\<lparr>finished := True\<rparr>)
          else (NextErr err, snd (ackOnce fn (Some err) s))
      | CsvRecord records \<Rightarrow>
          (let s1 = s\<lparr>pending := pending s + 1\<rparr>
           in if length records > length headers then (NextErr PanicIndex, s1)
              else (NextParts
                      [fold (\<lambda>(h, r) obj. AList.update h r obj) (zip headers records) []],
                    s1)))"

text \<open>
  \<^verbatim>\<open>chunkerReader.Next\<close>: \<^verbatim>\<open>a.r.Read(a.buf)\<close> returns the bytes read (\<open>n\<close> is their
  number) together with an error or nil.
\<close>

datatype read_result = ReadResult string "error option"

definition chunkerReader_Next ::
  "ReaderAckFn \<Rightarrow> read_result \<Rightarrow> reader_st \<Rightarrow> string next_result \<times> reader_st" where
  "chunkerReader_Next fn rd s =
     (if finished s then (NextErr EOF, s)
      else case rd of ReadResult bytes err \<Rightarrow>
        (case (case err of
                 None \<Rightarrow> Inr s
               | Some e \<Rightarrow> if e = EOF then Inr (s\<lparr>finished := True\<rparr>) else Inl e) of
           Inl e \<Rightarrow> (NextErr e, snd (ackOnce fn (Some e) s))
         | Inr s1 \<Rightarrow>
             if length bytes > 0
             then (NextParts [bytes], s1\<lparr>pending := pending s1 + 1\<rparr>)
             else (case err of None \<Rightarrow> NextNil | Some e \<Rightarrow> NextErr e, s1)))"

text \<open>
  \<^verbatim>\<open>tarReader.Next\<close>: \<^verbatim>\<open>buf.Next()\<close> finds an entry whose content is then read in
  full, or finds one whose content fails to read, or returns an error (\<^verbatim>\<open>io.EOF\<close> at
  the end of the archive).
\<close>

datatype tar_result = TarEntry string | TarBodyErr error | TarNextErr error

definition tarReader_Next ::
  "ReaderAckFn \<Rightarrow> tar_result \<Rightarrow> reader_st \<Rightarrow> string next_result \<times> reader_st" where
  "tarReader_Next fn rd s =
     (case rd of
        TarEntry bytes \<Rightarrow> (NextParts [bytes], s\<lparr>pending := pending s + 1\<rparr>)
      | TarBodyErr err \<Rightarrow> (NextErr err, snd (ackOnce fn (Some err) s))
      | TarNextErr err \<Rightarrow>
          if err = EOF then (NextErr err, s\<lparr>finished := True\<rparr>)
          else (NextErr err, snd (ackOnce fn (Some err) s)))"

text \<open>
  A lifetime of a reader is a sequence of calls made on it: \<^verbatim>\<open>Next\<close> (with what the
  source returned to it), the acknowledgement of a part (with nil or an error), and
  \<^verbatim>\<open>Close\<close>. \<open>reader_run\<close> makes the calls in order, from the left.
\<close>

datatype 'o call = CallNext 'o | CallAck "error option" | CallClose

definition reader_step ::
  "(ReaderAckFn \<Rightarrow> 'o \<Rightarrow> reader_st \<Rightarrow> 'r \<times> reader_st)
     \<Rightarrow> ReaderAckFn \<Rightarrow> 'o call \<Rightarrow> reader_st \<Rightarrow> reader_st" where
  "reader_step nxt fn c s =
     (case c of
        CallNext rd \<Rightarrow> snd (nxt fn rd s)
      | CallAck err \<Rightarrow> snd (partReader_ack fn err s)
      | CallClose \<Rightarrow> partReader_Close fn s)"

definition reader_run ::
  "(ReaderAckFn \<Rightarrow> 'o \<Rightarrow> reader_st \<Rightarrow> 'r \<times> reader_st)
     \<Rightarrow> ReaderAckFn \<Rightarrow> 'o call list \<Rightarrow> reader_st \<Rightarrow> reader_st" where
  "reader_run nxt fn cs s = foldl (\<lambda>s c. reader_step nxt fn c s) s cs"

text \<open>
  \<^verbatim>\<open>allBytesReader\<close> keeps the acknowledgement it was given as it is (\<^verbatim>\<open>ackOnce\<close> is
  not applied) and hands it out as the acknowledgement of its one part.
  \<^verbatim>\<open>ioutil.ReadAll\<close> returns the bytes or an error.
\<close>

record allBytes_st =
  consumed :: bool
  ab_calls :: "error option list"

definition new_allBytesReader :: allBytes_st where
  "new_allBytesReader = \<lparr>consumed = False, ab_calls = []\<rparr>"

definition allBytesReader_ack ::
  "ReaderAckFn \<Rightarrow> error option \<Rightarrow> allBytes_st \<Rightarrow> error option \<times> allBytes_st" where
  "allBytesReader_ack fn err s = (fn err, s\<lparr>ab_calls := ab_calls s @ [err]\<rparr>)"

definition allBytesReader_Next ::
  "ReaderAckFn \<Rightarrow> error + string \<Rightarrow> allBytes_st \<Rightarrow> string next_result \<times> allBytes_st" where
  "allBytesReader_Next fn rd s =
     (if consumed s then (NextErr EOF, s)
      else let s1 = s\<lparr>consumed := True\<rparr>
           in case rd of
                Inl err \<Rightarrow> (NextErr err, snd (allBytesReader_ack fn (Some err) s1))
              | Inr b \<Rightarrow> (NextParts [b], s1))"

definition allBytesReader_Close :: "ReaderAckFn \<Rightarrow> allBytes_st \<Rightarrow> allBytes_st" where
  "allBytesReader_Close fn s =
     (if \<not> consumed s then snd (allBytesReader_ack fn (Some ErrShutdown) s) else s)"

definition allBytes_step ::
  "ReaderAckFn \<Rightarrow> (error + string) call \<Rightarrow> allBytes_st \<Rightarrow> allBytes_st" where
  "allBytes_step fn c s =
     (case c of
        CallNext rd \<Rightarrow> snd (allBytesReader_Next fn rd s)
      | CallAck err \<Rightarrow> snd (allBytesReader_ack fn err s)
      | CallClose \<Rightarrow> allBytesReader_Close fn s)"

definition allBytes_run ::
  "ReaderAckFn \<Rightarrow> (error + string) call list \<Rightarrow> allBytes_st \<Rightarrow> allBytes_st" where
  "allBytes_run fn cs s = foldl (\<lambda>s c. allBytes_step fn c s) s cs"

section \<open>The multipart wrapper (internal/codec/reader.go, multipartReader)\<close>

text \<open>
  The wrapper reads from any \<^verbatim>\<open>Reader\<close>. An upstream reader is given by its state
  and its three operations on it: \<open>Next\<close> returns an error, or parts together with their
  acknowledgement, which is a closure (a value of type \<open>'a\<close> names it) or nil (\<open>None\<close>);
  \<open>Ack\<close> invokes such a closure with nil or an error; \<open>Close\<close> closes the reader.
\<close>

record ('s, 'p, 'a) Reader =
  Next :: "'s \<Rightarrow> (error + ('p list \<times> 'a option)) \<times> 's"
  Ack :: "'a \<Rightarrow> error option \<Rightarrow> 's \<Rightarrow> error option \<times> 's"
  Close :: "'s \<Rightarrow> error option \<times> 's"

text \<open>\<^verbatim>\<open>isEmpty\<close>; \<open>get\<close> is the method \<^verbatim>\<open>Get\<close> of a part, its payload.\<close>

definition isEmpty :: "('p \<Rightarrow> string) \<Rightarrow> 'p list \<Rightarrow> bool" where
  "isEmpty get p =
     (if length p = 0 then True
      else if length p = 1 \<and> length (get (p ! 0)) = 0 then True
      else False)"

text \<open>
  The loop of \<^verbatim>\<open>multipartReader.Next\<close>, with its two local slices as arguments. It
  runs for as long as the upstream reader returns parts, so it is a partial function:
  \<open>None\<close> is the loop that never returns. The acknowledgement of an empty result is
  called without a test: when it is nil the call panics, and \<^verbatim>\<open>Next\<close> ends with
  \<open>PanicNilDeref\<close>. The acknowledgement of any other result is appended to \<^verbatim>\<open>acks\<close> as
  it is, nil or not. The closure \<^verbatim>\<open>ackFn\<close> that \<^verbatim>\<open>Next\<close> returns is determined by the
  slice \<^verbatim>\<open>acks\<close>, which is returned in its place.
\<close>

partial_function (option) multipart_loop ::
  "('s, 'p, 'a) Reader \<Rightarrow> ('p \<Rightarrow> string) \<Rightarrow> 'p list \<Rightarrow> 'a option list \<Rightarrow> 's
     \<Rightarrow> ((error + ('p list \<times> 'a option list)) \<times> 's) option" where
  "multipart_loop R get parts acks s =
     (case Next R s of
        (Inl err, s1) \<Rightarrow>
          if errors_Is_EOF err \<and> length parts > 0 then Some (Inr (parts, acks), s1)
          else Some (Inl err, s1)
      | (Inr (newParts, ack), s1) \<Rightarrow>
          if isEmpty get newParts then
            (case ack of
               None \<Rightarrow> Some (Inl PanicNilDeref, s1)
             | Some fn \<Rightarrow>
                 (let s2 = snd (Ack R fn None s1)
                  in if length parts > 0 then Some (Inr (parts, acks), s2)
                     else multipart_loop R get parts acks s2))
          else multipart_loop R get (parts @ newParts) (acks @ [ack]) s1)"

definition multipartReader_Next ::
  "('s, 'p, 'a) Reader \<Rightarrow> ('p \<Rightarrow> string) \<Rightarrow> 's
     \<Rightarrow> ((error + ('p list \<times> 'a option list)) \<times> 's) option" where
  "multipartReader_Next R get s = multipart_loop R get [] [] s"

text \<open>
  The closure \<^verbatim>\<open>ackFn\<close> over the slice \<^verbatim>\<open>acks\<close>: it calls every acknowledgement in
  turn with its own argument, drops what they return, and returns nil. The call of a
  nil acknowledgement panics; the panic is written as the result \<open>Some PanicNilDeref\<close>.
\<close>

fun multipart_ackFn ::
  "('s, 'p, 'a) Reader \<Rightarrow> 'a option list \<Rightarrow> error option \<Rightarrow> 's \<Rightarrow> error option \<times> 's" where
  "multipart_ackFn R [] err s = (None, s)"
| "multipart_ackFn R (None # acks) err s = (Some PanicNilDeref, s)"
| "multipart_ackFn R (Some fn # acks) err s = multipart_ackFn R acks err (snd (Ack R fn err s))"

definition multipartReader_Close :: "('s, 'p, 'a) Reader \<Rightarrow> 's \<Rightarrow> error option \<times> 's" where
  "multipartReader_Close R s = Close R s"

text \<open>
  \<open>upstream_yields R get s bs s'\<close>: called repeatedly from the state \<open>s\<close>, the upstream
  reader returns the batches \<open>bs\<close> in this order, each with parts that are not empty, and
  is then in the state \<open>s'\<close>.
\<close>

fun upstream_yields ::
  "('s, 'p, 'a) Reader \<Rightarrow> ('p \<Rightarrow> string) \<Rightarrow> 's \<Rightarrow> ('p list \<times> 'a option) list \<Rightarrow> 's
     \<Rightarrow> bool" where
  "upstream_yields R get s [] s' = (s = s')"
| "upstream_yields R get s (b # bs) s' =
     (case Next R s of
        (Inr b', s1) \<Rightarrow> b' = b \<and> \<not> isEmpty get (fst b) \<and> upstream_yields R get s1 bs s'
      | (Inl err, s1) \<Rightarrow> False)"

text \<open>
  One of the five readers as the upstream reader, as in the codecs
  \<^verbatim>\<open>lines/multipart\<close> and \<^verbatim>\<open>chunker:n/multipart\<close>: its state is the reader's, paired
  with what the source will return to the coming calls of \<^verbatim>\<open>Next\<close>; once that list
  is used up the source returns \<open>at_end\<close>. The acknowledgement of every part is the
  method \<^verbatim>\<open>ack\<close> of the reader; the three nils that a \<^verbatim>\<open>Next\<close> may return are no
  parts with a nil acknowledgement.
\<close>

definition leaf_upstream ::
  "(ReaderAckFn \<Rightarrow> 'o \<Rightarrow> reader_st \<Rightarrow> 'p next_result \<times> reader_st) \<Rightarrow> 'o \<Rightarrow> ReaderAckFn
     \<Rightarrow> ('o list \<times> reader_st, 'p, unit) Reader" where
  "leaf_upstream nxt at_end fn =
     \<lparr>Next = (\<lambda>(src, s).
         (case nxt fn (case src of [] \<Rightarrow> at_end | x # xs \<Rightarrow> x) s of
            (NextParts ps, s1) \<Rightarrow> (Inr (ps, Some ()), (tl src, s1))
          | (NextErr err, s1) \<Rightarrow> (Inl err, (tl src, s1))
          | (NextNil, s1) \<Rightarrow> (Inr ([], None), (tl src, s1)))),
      Ack = (\<lambda>a err (src, s). (case partReader_ack fn err s of (e, s1) \<Rightarrow> (e, (src, s1)))),
      Close = (\<lambda>(src, s). (None, (src, partReader_Close fn s)))\<rparr>"

definition lines_upstream ::
  "ReaderAckFn \<Rightarrow> (scan_result list \<times> reader_st, string, unit) Reader" where
  "lines_upstream fn = leaf_upstream linesReader_Next (ScanStop None) fn"

definition chunker_upstream ::
  "ReaderAckFn \<Rightarrow> (read_result list \<times> reader_st, string, unit) Reader" where
  "chunker_upstream fn = leaf_upstream chunkerReader_Next (ReadResult [] (Some EOF)) fn"

text \<open>The lines of a text as the scanner returns them: the text split at line feeds.\<close>

fun scan_lines :: "string \<Rightarrow> string \<Rightarrow> scan_result list" where
  "scan_lines [] cur = (if cur = [] then [] else [Scanned (rev cur)])"
| "scan_lines (c # cs) cur =
     (if c = CHR 0x0A then Scanned (rev cur) # scan_lines cs []
      else scan_lines cs (c # cur))"

section \<open>Properties of the readers\<close>

text \<open>
  The invariant behind the single acknowledgement: the source acknowledgement has been
  invoked once if the \<^verbatim>\<open>sync.Once\<close> has run, and never otherwise.
\<close>

definition ack_inv :: "reader_st \<Rightarrow> bool" where
  "ack_inv s = (length (calls s) = (if once s then 1 else 0))"

text \<open>A \<^verbatim>\<open>Next\<close> method keeps the invariant, and never resets the \<^verbatim>\<open>sync.Once\<close>.\<close>

definition next_keeps ::
  "(ReaderAckFn \<Rightarrow> 'o \<Rightarrow> reader_st \<Rightarrow> 'r \<times> reader_st) \<Rightarrow> bool" where
  "next_keeps nxt =
     (\<forall>fn rd s. (ack_inv s \<longrightarrow> ack_inv (snd (nxt fn rd s))) \<and>
                (once s \<longrightarrow> once (snd (nxt fn rd s))))"

text \<open>
  \<open>Close_fires nxt fn cs\<close>: after the calls \<open>cs\<close> the reader has not seen the end of its
  source, or has no part pending; \<^verbatim>\<open>Close\<close> then invokes the source acknowledgement
  unless it was invoked before.
\<close>

definition Close_fires ::
  "(ReaderAckFn \<Rightarrow> 'o \<Rightarrow> reader_st \<Rightarrow> 'r \<times> reader_st) \<Rightarrow> ReaderAckFn \<Rightarrow> 'o call list \<Rightarrow> bool" where
  "Close_fires nxt fn cs =
     (\<not> finished (reader_run nxt fn cs new_reader) \<or>
      pending (reader_run nxt fn cs new_reader) = 0)"

text \<open>
  A \<^verbatim>\<open>Next\<close> method counts the parts it returns: unless it panics, it adds one to
  \<^verbatim>\<open>pending\<close> exactly when it returns parts, and it never resets \<^verbatim>\<open>finished\<close>.
\<close>

fun is_parts :: "'p next_result \<Rightarrow> bool" where
  "is_parts (NextParts ps) = True"
| "is_parts _ = False"

definition next_counts ::
  "(ReaderAckFn \<Rightarrow> 'o \<Rightarrow> reader_st \<Rightarrow> 'p next_result \<times> reader_st) \<Rightarrow> bool" where
  "next_counts nxt =
     (\<forall>fn rd s. fst (nxt fn rd s) \<noteq> NextErr PanicIndex \<longrightarrow>
        pending (snd (nxt fn rd s)) =
          pending s + (if is_parts (fst (nxt fn rd s)) then 1 else 0) \<and>
        (finished s \<longrightarrow> finished (snd (nxt fn rd s))))"

text \<open>
  \<open>lifetime_ok nxt fn cs s out was_closed\<close>: the calls \<open>cs\<close>, made on a reader in the state
  \<open>s\<close> with \<open>out\<close> parts returned and not yet acknowledged, are a complete lifetime.
  No call of \<^verbatim>\<open>Next\<close> panics; every acknowledgement is that of a part that \<^verbatim>\<open>Next\<close>
  has returned and that has not been acknowledged before; and when the calls end,
  \<^verbatim>\<open>Close\<close> has been called (\<open>was_closed\<close> tells whether it was before \<open>cs\<close>) and no part
  is left without its acknowledgement. \<^verbatim>\<open>Next\<close>, the acknowledgements and \<^verbatim>\<open>Close\<close>
  may come in any order otherwise.
\<close>

fun lifetime_ok ::
  "(ReaderAckFn \<Rightarrow> 'o \<Rightarrow> reader_st \<Rightarrow> 'p next_result \<times> reader_st) \<Rightarrow> ReaderAckFn
     \<Rightarrow> 'o call list \<Rightarrow> reader_st \<Rightarrow> nat \<Rightarrow> bool \<Rightarrow> bool" where
  "lifetime_ok nxt fn [] s out was_closed = (out = 0 \<and> was_closed)"
| "lifetime_ok nxt fn (CallNext rd # cs) s out was_closed =
     (case fst (nxt fn rd s) of
        NextParts ps \<Rightarrow> lifetime_ok nxt fn cs (snd (nxt fn rd s)) (out + 1) was_closed
      | NextErr err \<Rightarrow>
          err \<noteq> PanicIndex \<and> lifetime_ok nxt fn cs (snd (nxt fn rd s)) out was_closed
      | NextNil \<Rightarrow> lifetime_ok nxt fn cs (snd (nxt fn rd s)) out was_closed)"
| "lifetime_ok nxt fn (CallAck err # cs) s out was_closed =
     (out > 0 \<and> lifetime_ok nxt fn cs (snd (partReader_ack fn err s)) (out - 1) was_closed)"
| "lifetime_ok nxt fn (CallClose # cs) s out was_closed =
     lifetime_ok nxt fn cs (partReader_Close fn s) out True"

text \<open>
  What the lifetime theorem uses: while the source acknowledgement has not been invoked,
  \<^verbatim>\<open>pending\<close> is the number of parts returned and not yet acknowledged, and if
  \<^verbatim>\<open>Close\<close> was called, the end of the source has been seen and a part is pending.
\<close>

definition lifetime_inv :: "reader_st \<Rightarrow> nat \<Rightarrow> bool \<Rightarrow> bool" where
  "lifetime_inv s out was_closed =
     (ack_inv s \<and>
      (once s \<or> (pending s = of_nat out \<and> (was_closed \<longrightarrow> finished s \<and> out > 0))))"

text \<open>
  \<open>acks_source_once nxt fn cs cs' e\<close>, for a reader made with the source acknowledgement
  \<open>fn\<close> whose method \<^verbatim>\<open>Next\<close> is \<open>nxt\<close>: after any calls \<open>cs\<close> the source
  acknowledgement has been invoked at most once; it has been invoked exactly once when
  the calls \<open>cs\<close> are a complete lifetime, and also after any calls \<open>cs\<close> followed by the
  acknowledgement of a part with an error, or by \<^verbatim>\<open>Close\<close> when the end of the source
  has not been seen or no part is pending, whatever calls \<open>cs'\<close> follow.
\<close>

definition acks_source_once ::
  "(ReaderAckFn \<Rightarrow> 'o \<Rightarrow> reader_st \<Rightarrow> 'p next_result \<times> reader_st) \<Rightarrow> ReaderAckFn
     \<Rightarrow> 'o call list \<Rightarrow> 'o call list \<Rightarrow> error \<Rightarrow> bool" where
  "acks_source_once nxt fn cs cs' e =
     (length (calls (reader_run nxt fn cs new_reader)) \<le> 1 \<and>
      (lifetime_ok nxt fn cs new_reader 0 False \<longrightarrow>
         length (calls (reader_run nxt fn cs new_reader)) = 1) \<and>
      length (calls (reader_run nxt fn (cs @ CallAck (Some e) # cs') new_reader)) = 1 \<and>
      (Close_fires nxt fn cs \<longrightarrow>
         length (calls (reader_run nxt fn (cs @ CallClose # cs') new_reader)) = 1))"

text \<open>The three operations of an upstream reader keep a property \<open>I\<close> of its state.\<close>

definition upstream_keeps :: "('s, 'p, 'a) Reader \<Rightarrow> ('s \<Rightarrow> bool) \<Rightarrow> bool" where
  "upstream_keeps R I =
     (\<forall>s. I s \<longrightarrow> I (snd (Next R s)) \<and> (\<forall>a e. I (snd (Ack R a e s))) \<and> I (snd (Close R s)))"

text \<open>
  \<open>batches_of get parts acks r\<close>: if \<open>r\<close> is a batch, it is not empty, and it consists of
  \<open>parts\<close> followed by the parts of upstream results none of which is empty, with the
  acknowledgements \<open>acks\<close> followed by theirs.
\<close>

definition batches_of ::
  "('p \<Rightarrow> string) \<Rightarrow> 'p list \<Rightarrow> 'a option list
     \<Rightarrow> (error + ('p list \<times> 'a option list)) \<Rightarrow> bool" where
  "batches_of get parts acks r =
     (\<forall>ps as. r = Inr (ps, as) \<longrightarrow>
        ps \<noteq> [] \<and> (\<exists>bs. ps = parts @ concat (map fst bs) \<and> as = acks @ map snd bs \<and>
                     (\<forall>b \<in> set bs. \<not> isEmpty get (fst b))))"

section \<open>The sum method (internal/bloblang/query/methods_structured.go)\<close>

text \<open>
  A function node of the query language, as far as \<^verbatim>\<open>sumMethod\<close> uses one: \<^verbatim>\<open>Exec\<close>
  returns a value or an error, \<^verbatim>\<open>Annotation\<close> names the node.
\<close>

record ('c, 'f) Function =
  Exec :: "'c \<Rightarrow> 'f qerror + 'f val"
  Annotation :: string

text \<open>
  The loop over the elements of an array: every element that is not a number overwrites
  \<^verbatim>\<open>err\<close> with an error naming its index, every other one is added to \<^verbatim>\<open>total\<close> (here \<open>tot\<close>).
  \<open>IGetNumber\<close> and the addition of \<^verbatim>\<open>float64\<close> are parameters.
\<close>

fun sum_loop ::
  "('f val \<Rightarrow> 'f qerror + 'f) \<Rightarrow> ('f \<Rightarrow> 'f \<Rightarrow> 'f) \<Rightarrow> 'f val list \<Rightarrow> nat \<Rightarrow> 'f
     \<Rightarrow> 'f qerror option \<Rightarrow> 'f \<times> 'f qerror option" where
  "sum_loop IGetNumber add [] i tot err = (tot, err)"
| "sum_loop IGetNumber add (v # vs) i tot err =
     (case IGetNumber v of
        Inl nErr \<Rightarrow> sum_loop IGetNumber add vs (i + 1) tot (Some (ErrIndex i nErr))
      | Inr n \<Rightarrow> sum_loop IGetNumber add vs (i + 1) (add tot n) err)"

text \<open>
  The closure that \<^verbatim>\<open>sumMethod\<close> returns, applied to a context. The helpers
  \<^verbatim>\<open>ISanitize\<close> and \<^verbatim>\<open>IGetNumber\<close> are not among the sources and are parameters, as are
  the \<^verbatim>\<open>float64\<close> zero and addition. The switch is on the type of \<^verbatim>\<open>ISanitize(v)\<close>;
  what is returned, and what the type error holds, is \<^verbatim>\<open>v\<close> itself.
\<close>

definition sumMethod ::
  "('f val \<Rightarrow> 'f val) \<Rightarrow> ('f val \<Rightarrow> 'f qerror + 'f) \<Rightarrow> 'f \<Rightarrow> ('f \<Rightarrow> 'f \<Rightarrow> 'f)
     \<Rightarrow> ('c, 'f) Function \<Rightarrow> 'c \<Rightarrow> 'f qerror + 'f val" where
  "sumMethod ISanitize IGetNumber fzero add target ctx =
     (case Exec target ctx of
        Inl err \<Rightarrow> Inl err
      | Inr v \<Rightarrow>
          (case ISanitize v of
             VFloat x \<Rightarrow> Inr v
           | VInt x \<Rightarrow> Inr v
           | VUint x \<Rightarrow> Inr v
           | VNumber x \<Rightarrow> Inr v
           | VArray t \<Rightarrow>
               (case sum_loop IGetNumber add t 0 fzero None of
                  (tot, Some err) \<Rightarrow> Inl err
                | (tot, None) \<Rightarrow> Inr (VFloat tot))
           | _ \<Rightarrow> Inl (TypeErrorFrom (Annotation target) v [ValueArray])))"

text \<open>The kinds of the first case of the switch, and the kind of the second.\<close>

fun is_numeric :: "'f val \<Rightarrow> bool" where
  "is_numeric (VFloat x) = True"
| "is_numeric (VInt x) = True"
| "is_numeric (VUint x) = True"
| "is_numeric (VNumber x) = True"
| "is_numeric _ = False"

fun is_array :: "'f val \<Rightarrow> bool" where
  "is_array (VArray t) = True"
| "is_array _ = False"

text \<open>
  A stand-in for \<^verbatim>\<open>IGetNumber\<close> to run \<open>sumMethod\<close> on, for values whose floats are
  integers: numbers are read, any other value is a type error.
\<close>

definition demo_IGetNumber :: "int val \<Rightarrow> int qerror + int" where
  "demo_IGetNumber v =
     (case v of VFloat x \<Rightarrow> Inr x | VInt x \<Rightarrow> Inr (sint x) | VUint x \<Rightarrow> Inr (uint x)
      | _ \<Rightarrow> Inl (TypeError v [ValueNumber]))"

section \<open>Function sets (function_set.go, in the sources after method_set_test.go)\<close>

text \<open>
  A \<^verbatim>\<open>FunctionSpec\<close>, with its parameter specification left abstract, and the errors
  of the registry: a name that does not match the regular expression, a name already
  taken, an unknown name (\<^verbatim>\<open>badFunctionErr\<close>), and whatever the validation of the
  parameters or a constructor returns.
\<close>

record 'p FunctionSpec =
  Name :: string
  Category :: string
  Impure :: bool
  Params :: 'p

datatype reg_error =
    ErrNameRegexp string
  | ErrConflict string
  | ErrBadFunction string
  | ErrRegOther string

text \<open>
  \<^verbatim>\<open>nameRegexp.MatchString\<close> for the expression \<^verbatim>\<open>^[a-z0-9]+(_[a-z0-9]+)*$\<close>: groups
  of lower-case letters and digits, none empty, separated by single underscores. The
  flag of \<open>name_segments\<close> tells whether the group being read has a character yet.
\<close>

definition is_lower_alnum :: "char \<Rightarrow> bool" where
  "is_lower_alnum c =
     (let n = (of_char c :: nat) in (97 \<le> n \<and> n \<le> 122) \<or> (48 \<le> n \<and> n \<le> 57))"

fun name_segments :: "string \<Rightarrow> bool \<Rightarrow> bool" where
  "name_segments [] started = started"
| "name_segments (c # cs) started =
     (if is_lower_alnum c then name_segments cs True
      else if c = CHR ''_'' \<and> started then name_segments cs False
      else False)"

definition nameRegexp_MatchString :: "string \<Rightarrow> bool" where
  "nameRegexp_MatchString s = name_segments s False"

text \<open>
  A \<^verbatim>\<open>FunctionSet\<close> holds two Go maps, which are references: two sets may share a
  map, and a write through one is seen through the other. The store holds every map
  made so far, by address, as the list of its entries (a Go map has each key once; the
  order of the list stands for the order in which \<^verbatim>\<open>range\<close> visits it); \<open>next_map\<close>
  is the first address not in use. A constructor takes parsed arguments \<open>'a\<close> and
  returns a function \<open>'fn\<close> or an error.
\<close>

record ('a, 'fn, 'p) store =
  ctor_maps :: "nat \<Rightarrow> (string \<times> ('a \<Rightarrow> reg_error + 'fn)) list"
  spec_maps :: "nat \<Rightarrow> (string \<times> 'p FunctionSpec) list"
  next_map :: nat

record FunctionSet =
  constructors :: nat
  specs :: nat

definition NewFunctionSet :: "('a, 'fn, 'p) store \<Rightarrow> FunctionSet \<times> ('a, 'fn, 'p) store" where
  "NewFunctionSet h =
     (\<lparr>constructors = next_map h, specs = next_map h\<rparr>,
      h\<lparr>ctor_maps := (ctor_maps h)(next_map h := []),
        spec_maps := (spec_maps h)(next_map h := []),
        next_map := next_map h + 1\<rparr>)"

text \<open>\<^verbatim>\<open>Add\<close>; \<open>validate\<close> is the method \<^verbatim>\<open>validate\<close> of the parameter specification.\<close>

definition Add ::
  "('p \<Rightarrow> reg_error option) \<Rightarrow> FunctionSet \<Rightarrow> 'p FunctionSpec \<Rightarrow> ('a \<Rightarrow> reg_error + 'fn)
     \<Rightarrow> ('a, 'fn, 'p) store \<Rightarrow> reg_error option \<times> ('a, 'fn, 'p) store" where
  "Add validate f spec ctor h =
     (if \<not> nameRegexp_MatchString (Name spec) then (Some (ErrNameRegexp (Name spec)), h)
      else if map_of (ctor_maps h (constructors f)) (Name spec) \<noteq> None
      then (Some (ErrConflict (Name spec)), h)
      else case validate (Params spec) of
             Some err \<Rightarrow> (Some err, h)
           | None \<Rightarrow>
               (let h1 = h\<lparr>ctor_maps := (ctor_maps h)
                            (constructors f :=
                               AList.update (Name spec) ctor (ctor_maps h (constructors f)))\<rparr>;
                    h2 = h1\<lparr>spec_maps := (spec_maps h1)
                            (specs f :=
                               AList.update (Name spec) spec (spec_maps h1 (specs f)))\<rparr>
                in (None, h2)))"

text \<open>
  \<^verbatim>\<open>wrapCtorWithDynamicArgs\<close>: \<open>dynamic\<close> is \<^verbatim>\<open>args.dynamic()\<close>, and \<open>closure\<close> stands for
  the function that \<^verbatim>\<open>ClosureFunction\<close> builds around the name, the arguments and the
  constructor.
\<close>

definition wrapCtorWithDynamicArgs ::
  "('a \<Rightarrow> 'fn list) \<Rightarrow> (string \<Rightarrow> 'a \<Rightarrow> ('a \<Rightarrow> reg_error + 'fn) \<Rightarrow> 'fn)
     \<Rightarrow> string \<Rightarrow> 'a \<Rightarrow> ('a \<Rightarrow> reg_error + 'fn) \<Rightarrow> reg_error + 'fn" where
  "wrapCtorWithDynamicArgs dynamic closure name args fn =
     (if length (dynamic args) = 0 then fn args else Inr (closure name args fn))"

definition Init ::
  "('a \<Rightarrow> 'fn list) \<Rightarrow> (string \<Rightarrow> 'a \<Rightarrow> ('a \<Rightarrow> reg_error + 'fn) \<Rightarrow> 'fn)
     \<Rightarrow> ('a, 'fn, 'p) store \<Rightarrow> FunctionSet \<Rightarrow> string \<Rightarrow> 'a \<Rightarrow> reg_error + 'fn" where
  "Init dynamic closure h f name args =
     (case map_of (ctor_maps h (constructors f)) name of
        None \<Rightarrow> Inl (ErrBadFunction name)
      | Some ctor \<Rightarrow> wrapCtorWithDynamicArgs dynamic closure name args ctor)"

text \<open>
  \<^verbatim>\<open>Without\<close>: both iterations write into maps made for the clone; the constructors are
  copied under their keys, the specs under their names.
\<close>

definition Without ::
  "FunctionSet \<Rightarrow> string list \<Rightarrow> ('a, 'fn, 'p) store \<Rightarrow> FunctionSet \<times> ('a, 'fn, 'p) store" where
  "Without f functions h =
     (let constructors' =
            fold (\<lambda>(k, v) m. if k \<in> set functions then m else AList.update k v m)
                 (ctor_maps h (constructors f)) [];
          specs' =
            fold (\<lambda>(k, v) m. if Name v \<in> set functions then m
                              else AList.update (Name v) v m)
                 (spec_maps h (specs f)) []
      in (\<lparr>constructors = next_map h, specs = next_map h\<rparr>,
          h\<lparr>ctor_maps := (ctor_maps h)(next_map h := constructors'),
            spec_maps := (spec_maps h)(next_map h := specs'),
            next_map := next_map h + 1\<rparr>))"

text \<open>
  A set of the store as the operations above leave it: its maps are in use, no key
  occurs twice, and every spec is stored under its name.
\<close>

definition wf_FunctionSet :: "('a, 'fn, 'p) store \<Rightarrow> FunctionSet \<Rightarrow> bool" where
  "wf_FunctionSet h f =
     (constructors f < next_map h \<and> specs f < next_map h \<and>
      distinct (map fst (ctor_maps h (constructors f))) \<and>
      distinct (map fst (spec_maps h (specs f))) \<and>
      (\<forall>(k, v) \<in> set (spec_maps h (specs f)). Name v = k))"

text \<open>
  A store to run the operations on: a set made by \<^verbatim>\<open>NewFunctionSet\<close> to which
  \<open>explode\<close> and \<open>map_each\<close> were added, the names of the test of \<^verbatim>\<open>Without\<close>.
  Arguments are of type \<open>unit\<close>, and a function is represented by its name.
\<close>

definition demo_spec :: "string \<Rightarrow> unit FunctionSpec" where
  "demo_spec n = \<lparr>Name = n, Category = ''Object & Array Manipulation'', Impure = False,
                   Params = ()\<rparr>"

definition empty_store :: "(unit, string, unit) store" where
  "empty_store = \<lparr>ctor_maps = \<lambda>a. [], spec_maps = \<lambda>a. [], next_map = 0\<rparr>"

definition demo_set :: FunctionSet where
  "demo_set = fst (NewFunctionSet empty_store)"

definition demo_store :: "(unit, string, unit) store" where
  "demo_store =
     snd (Add (\<lambda>p. None) demo_set (demo_spec ''map_each'') (\<lambda>args. Inr ''map_each'')
       (snd (Add (\<lambda>p. None) demo_set (demo_spec ''explode'') (\<lambda>args. Inr ''explode'')
         (snd (NewFunctionSet empty_store)))))"

section \<open>Arithmetic on numbers (internal/bloblang/query, arithmetic.go)\<close>

text \<open>
  The file \<^verbatim>\<open>arithmetic.go\<close> is not among the sources: only its tests are
  (\<^verbatim>\<open>arithmetic_test.go\<close>). The operators below are modelled from section 4.1 of the
  specification and from what those tests fix. Messages are strings, as the tests
  compare them.
\<close>

datatype ArithmeticOperator =
    ArithmeticAdd | ArithmeticSub | ArithmeticDiv | ArithmeticMul | ArithmeticMod
  | ArithmeticEq | ArithmeticNeq | ArithmeticGt | ArithmeticLt | ArithmeticGte
  | ArithmeticLte | ArithmeticAnd | ArithmeticOr | ArithmeticPipe

text \<open>
  What the model takes from outside: the name of an operator in messages
  (\<^verbatim>\<open>op.String()\<close>), the parsing of decimal text as an integer and as a float, and the
  arithmetic of \<^verbatim>\<open>float64\<close>.
\<close>

record 'f arith_env =
  op_String :: "ArithmeticOperator \<Rightarrow> string"
  parse_int :: "string \<Rightarrow> 64 word option"
  parse_float :: "string \<Rightarrow> 'f option"
  of_int64 :: "64 word \<Rightarrow> 'f"
  float_add :: "'f \<Rightarrow> 'f \<Rightarrow> 'f"
  float_sub :: "'f \<Rightarrow> 'f \<Rightarrow> 'f"
  float_mul :: "'f \<Rightarrow> 'f \<Rightarrow> 'f"
  float_div :: "'f \<Rightarrow> 'f \<Rightarrow> 'f"
  float_mod :: "'f \<Rightarrow> 'f \<Rightarrow> 'f"
  float_zero :: 'f

text \<open>An operand function after evaluation: its annotation and its value.\<close>

type_synonym 'f operand = "string \<times> 'f val"

text \<open>
  Modelled from the spec: the name of the kind of a value as messages print it
  (\<^verbatim>\<open>ITypeOf\<close>, which is not among the sources).
\<close>

fun kind_name :: "'f val \<Rightarrow> string" where
  "kind_name VNull = ''null''"
| "kind_name (VBool b) = ''bool''"
| "kind_name (VFloat x) = ''number''"
| "kind_name (VInt x) = ''number''"
| "kind_name (VUint x) = ''number''"
| "kind_name (VNumber x) = ''number''"
| "kind_name (VString x) = ''string''"
| "kind_name (VBytes x) = ''bytes''"
| "kind_name (VArray x) = ''array''"
| "kind_name (VObject x) = ''object''"
| "kind_name VDelete = ''delete''"
| "kind_name VNothing = ''nothing''"

text \<open>
  Modelled from the spec: the numeric coercion of \<^verbatim>\<open>arithmetic.go\<close> ("string to number
  via decimal parse, deferred-number to int-then-float, bool/null rejected"). A number
  is a 64-bit signed integer or a float.
\<close>

datatype 'f num = NInt "64 word" | NFloat 'f

definition parse_number :: "'f arith_env \<Rightarrow> string \<Rightarrow> 'f num option" where
  "parse_number E s =
     (case parse_int E s of
        Some i \<Rightarrow> Some (NInt i)
      | None \<Rightarrow> (case parse_float E s of Some x \<Rightarrow> Some (NFloat x) | None \<Rightarrow> None))"

fun coerce_num :: "'f arith_env \<Rightarrow> 'f val \<Rightarrow> 'f num option" where
  "coerce_num E (VInt i) = Some (NInt i)"
| "coerce_num E (VUint u) = Some (NInt u)"
| "coerce_num E (VFloat x) = Some (NFloat x)"
| "coerce_num E (VNumber s) = parse_number E s"
| "coerce_num E (VString s) = parse_number E s"
| "coerce_num E _ = None"

fun to_float :: "'f arith_env \<Rightarrow> 'f num \<Rightarrow> 'f" where
  "to_float E (NInt i) = of_int64 E i"
| "to_float E (NFloat x) = x"

text \<open>
  Modelled from the spec: the message of operands that cannot be combined,
  \<^verbatim>\<open>cannot <op> types <lkind> (from <lannotation>) and <rkind> (from <rannotation>)\<close>.
\<close>

definition type_mismatch ::
  "'f arith_env \<Rightarrow> ArithmeticOperator \<Rightarrow> 'f operand \<Rightarrow> 'f operand \<Rightarrow> string" where
  "type_mismatch E op l r =
     ''cannot '' @ op_String E op @ '' types '' @ kind_name (snd l) @ '' (from '' @ fst l @
     '') and '' @ kind_name (snd r) @ '' (from '' @ fst r @ '')''"

text \<open>
  Modelled from the spec: \<^verbatim>\<open>numberDegradationFunc\<close> of \<^verbatim>\<open>arithmetic.go\<close>, with the
  signature its test calls it with (an operator, a function on \<^verbatim>\<open>int64\<close> and one on
  \<^verbatim>\<open>float64\<close>): when both operands are integers it applies the integer function, when
  both are numbers and one is a float it applies the float function to both as floats,
  and otherwise it fails with the message above.
\<close>

definition numberDegradationFunc ::
  "'f arith_env \<Rightarrow> ArithmeticOperator \<Rightarrow> (64 word \<Rightarrow> 64 word \<Rightarrow> string + 64 word)
     \<Rightarrow> ('f \<Rightarrow> 'f \<Rightarrow> string + 'f) \<Rightarrow> 'f operand \<Rightarrow> 'f operand \<Rightarrow> string + 'f val" where
  "numberDegradationFunc E op intFn floatFn l r =
     (case (coerce_num E (snd l), coerce_num E (snd r)) of
        (Some (NInt a), Some (NInt b)) \<Rightarrow>
          (case intFn a b of Inl err \<Rightarrow> Inl err | Inr i \<Rightarrow> Inr (VInt i))
      | (Some x, Some y) \<Rightarrow>
          (case floatFn (to_float E x) (to_float E y) of
             Inl err \<Rightarrow> Inl err
           | Inr f \<Rightarrow> Inr (VFloat f))
      | _ \<Rightarrow> Inl (type_mismatch E op l r))"

text \<open>
  Modelled from the spec: the message of a division by zero. The specification names
  the annotation of the left operand. The test \<^verbatim>\<open>TestArithmetic\<close> of the sources, in
  its cases "dont divide by zero" and "dont divide by zero 2", divides a literal 5 by a
  closure annotated \<open>foobar\<close> that returns 0, and expects
  \<open>foobar: attempted to divide by zero\<close>: the annotation is the one of the right
  operand, the divisor, and the model follows the test. \<open>spec_divide_by_zero\<close> is the
  message in the specification's words.
\<close>

definition divide_by_zero :: "'f operand \<Rightarrow> 'f operand \<Rightarrow> string" where
  "divide_by_zero l r = fst r @ '': attempted to divide by zero''"

definition spec_divide_by_zero :: "'f operand \<Rightarrow> 'f operand \<Rightarrow> string" where
  "spec_divide_by_zero l r = fst l @ '': attempted to divide by zero''"

text \<open>
  Modelled from the spec: the operators \<open>+\<close>, \<open>-\<close>, \<open>*\<close>, \<open>/\<close> and \<open>%\<close> of
  \<^verbatim>\<open>arithmetic.go\<close>. \<open>+\<close> concatenates two strings and fails on a string and any
  other value; \<open>/\<close> and \<open>%\<close> fail when the right operand is zero; \<open>/\<close> of two integers
  is an integer when the division is exact and a float otherwise. Integers are 64-bit
  and signed: they wrap around, and the quotient and the remainder truncate towards zero as Go's do.
\<close>

definition int64_quo :: "64 word \<Rightarrow> 64 word \<Rightarrow> 64 word" where
  "int64_quo a b = word_of_int (sint a sdiv sint b)"

definition int64_rem :: "64 word \<Rightarrow> 64 word \<Rightarrow> 64 word" where
  "int64_rem a b = word_of_int (sint a smod sint b)"

fun is_string :: "'f val \<Rightarrow> bool" where
  "is_string (VString s) = True"
| "is_string _ = False"

definition arithmetic ::
  "'f arith_env \<Rightarrow> ArithmeticOperator \<Rightarrow> 'f operand \<Rightarrow> 'f operand \<Rightarrow> string + 'f val" where
  "arithmetic E op l r =
     (case op of
        ArithmeticAdd \<Rightarrow>
          (case (snd l, snd r) of
             (VString a, VString b) \<Rightarrow> Inr (VString (a @ b))
           | _ \<Rightarrow>
               if is_string (snd l) \<or> is_string (snd r) then Inl (type_mismatch E op l r)
               else numberDegradationFunc E op
                      (\<lambda>a b. Inr (a + b)) (\<lambda>x y. Inr (float_add E x y)) l r)
      | ArithmeticSub \<Rightarrow>
          numberDegradationFunc E op (\<lambda>a b. Inr (a - b)) (\<lambda>x y. Inr (float_sub E x y)) l r
      | ArithmeticMul \<Rightarrow>
          numberDegradationFunc E op (\<lambda>a b. Inr (a * b)) (\<lambda>x y. Inr (float_mul E x y)) l r
      | ArithmeticDiv \<Rightarrow>
          (case (coerce_num E (snd l), coerce_num E (snd r)) of
             (Some (NInt a), Some (NInt b)) \<Rightarrow>
               if b = 0 then Inl (divide_by_zero l r)
               else if int64_rem a b = 0 then Inr (VInt (int64_quo a b))
               else Inr (VFloat (float_div E (of_int64 E a) (of_int64 E b)))
           | (Some x, Some y) \<Rightarrow>
               if to_float E y = float_zero E then Inl (divide_by_zero l r)
               else Inr (VFloat (float_div E (to_float E x) (to_float E y)))
           | _ \<Rightarrow> Inl (type_mismatch E op l r))
      | ArithmeticMod \<Rightarrow>
          numberDegradationFunc E op
            (\<lambda>a b. if b = 0 then Inl (divide_by_zero l r) else Inr (int64_rem a b))
            (\<lambda>x y. if y = float_zero E then Inl (divide_by_zero l r) else Inr (float_mod E x y)) l r
      | _ \<Rightarrow> Inl ''not an operator on numbers'')"

text \<open>
  An environment to run the model in, with the rationals in place of \<^verbatim>\<open>float64\<close>
  (exact on the values of the tests) and a parser of unsigned decimal integers; it has
  no parser of floats, and no remainder of floats.
\<close>

fun decimal_digits :: "string \<Rightarrow> nat \<Rightarrow> nat option" where
  "decimal_digits [] n = Some n"
| "decimal_digits (c # cs) n =
     (let d = (of_char c :: nat)
      in if 48 \<le> d \<and> d \<le> 57 then decimal_digits cs (10 * n + (d - 48)) else None)"

definition demo_parse_int :: "string \<Rightarrow> 64 word option" where
  "demo_parse_int s =
     (if s = [] then None
      else case decimal_digits s 0 of
             None \<Rightarrow> None
           | Some n \<Rightarrow> if n < 2 ^ 63 then Some (of_nat n) else None)"

definition demo_env :: "rat arith_env" where
  "demo_env =
     \<lparr>op_String = (\<lambda>op. if op = ArithmeticAdd then ''add'' else ''combine''),
      parse_int = demo_parse_int,
      parse_float = (\<lambda>s. None),
      of_int64 = (\<lambda>i. of_int (sint i)),
      float_add = (+), float_sub = (-), float_mul = (*), float_div = (/),
      float_mod = (\<lambda>x y. 0),
      float_zero = 0\<rparr>"

text \<open>A number that is zero, as an integer or as a float.\<close>

fun is_zero :: "'f arith_env \<Rightarrow> 'f num \<Rightarrow> bool" where
  "is_zero E (NInt b) = (b = 0)"
| "is_zero E (NFloat y) = (y = float_zero E)"

fun is_float :: "'f num \<Rightarrow> bool" where
  "is_float (NFloat y) = True"
| "is_float (NInt b) = False"

section \<open>Theorems\<close>

subsection \<open>Codec selection\<close>

lemma Ext_scan_no_dot:
  "CHR ''.'' \<notin> set acc \<Longrightarrow> Ext_scan cs acc = [] \<or>
     (\<exists>r. Ext_scan cs acc = CHR ''.'' # r \<and> CHR ''.'' \<notin> set r)"
  by (induction cs acc rule: Ext_scan.induct) auto

lemma Ext_single_dot:
  "Ext path = [] \<or> (\<exists>r. Ext path = CHR ''.'' # r \<and> CHR ''.'' \<notin> set r)"
  unfolding Ext_def using Ext_scan_no_dot [of "[]" "rev path"] by simp

lemma Ext_never_csv_gz: "Ext path \<noteq> ''.csv.gz'' \<and> Ext path \<noteq> ''.csv.gzip''"
  using Ext_single_dot [of path] by auto

text \<open>
  Whatever the path, the branch of the switch for \<open>.csv.gz\<close> and \<open>.csv.gzip\<close> is never
  taken: an extension holds exactly one dot. So \<open>gzip/csv\<close> is never chosen.
\<close>

lemma autoCodec_never_gzip_csv: "autoCodec_codec path \<noteq> ''gzip/csv''"
  using Ext_never_csv_gz [of path]
  by (simp add: autoCodec_codec_def Let_def)

lemma HasSuffix_append: "HasSuffix s suffix \<longleftrightarrow> (\<exists>p. s = p @ suffix)"
proof
  assume "HasSuffix s suffix"
  then have "s = take (length s - length suffix) s @ suffix"
    by (metis HasSuffix_def append_take_drop_id)
  then show "\<exists>p. s = p @ suffix" ..
next
  assume "\<exists>p. s = p @ suffix"
  then show "HasSuffix s suffix" by (auto simp: HasSuffix_def)
qed

text \<open>
  Every path that ends in \<open>.csv.gz\<close> or \<open>.csv.gzip\<close> is read with \<open>all-bytes\<close>;
  the other extensions of the switch, and the two suffixes tested after it, choose the
  codec the switch names.
\<close>

lemma autoCodec_csv_gz_everywhere:
  assumes "HasSuffix path ''.csv.gz'' \<or> HasSuffix path ''.csv.gzip''"
  shows "autoCodec_codec path = ''all-bytes''"
proof -
  from assms obtain p where p: "path = p @ ''.csv.gz'' \<or> path = p @ ''.csv.gzip''"
    by (auto simp: HasSuffix_append)
  then have e: "Ext path = ''.gz'' \<or> Ext path = ''.gzip''"
    by (auto simp: Ext_def)
  from p have "\<not> HasSuffix path ''.tar.gzip''" and "\<not> HasSuffix path ''.tar.gz''"
    by (auto simp: HasSuffix_append)
  with e show ?thesis by (auto simp: autoCodec_codec_def Let_def)
qed

lemma autoCodec_other_suffixes:
  "HasSuffix path ''.csv'' \<Longrightarrow> autoCodec_codec path = ''csv''"
  "HasSuffix path ''.tar'' \<Longrightarrow> autoCodec_codec path = ''tar''"
  "HasSuffix path ''.tgz'' \<Longrightarrow> autoCodec_codec path = ''gzip/tar''"
  "HasSuffix path ''.tar.gz'' \<Longrightarrow> autoCodec_codec path = ''gzip/tar''"
  "HasSuffix path ''.tar.gzip'' \<Longrightarrow> autoCodec_codec path = ''gzip/tar''"
  by (auto simp: HasSuffix_append autoCodec_codec_def Let_def Ext_def)

text \<open>
  Claim C3. The claim says a path ending in \<open>.csv.gz\<close> is read with \<open>gzip/csv\<close>. On
  \<open>data.csv.gz\<close> the code chooses \<open>all-bytes\<close>: the extension Go computes is \<open>.gz\<close>.
\<close>

theorem autoCodec_csv_gz_is_all_bytes:
  "autoCodec_codec ''data.csv.gz'' = ''all-bytes'' \<and> Ext ''data.csv.gz'' = ''.gz'' \<and>
   autoCodec_codec ''data.csv.gzip'' = ''all-bytes'' \<and> Ext ''data.csv.gzip'' = ''.gzip''"
  by (simp add: autoCodec_codec_def Ext_def HasSuffix_def)

subsection \<open>The slice method\<close>

lemma getBounds_ok:
  "0 \<le> l \<Longrightarrow> getBounds start end l = Inr (s, e) \<Longrightarrow>
     s = resolved_lower l start \<and> e = resolved_upper l end \<and> 0 \<le> s \<and> s \<le> e \<and> e \<le> l"
  by (auto simp: getBounds_def Let_def resolved_lower_def resolved_upper_def
           split: option.splits if_splits)

lemma getBounds_succeeds:
  "0 \<le> l \<Longrightarrow> resolved_lower l start \<le> resolved_upper l end \<Longrightarrow>
     getBounds start end l = Inr (resolved_lower l start, resolved_upper l end)"
  by (auto simp: getBounds_def Let_def resolved_lower_def resolved_upper_def
           split: option.splits if_splits)

lemma go_slice_length:
  "0 \<le> lo \<Longrightarrow> lo \<le> hi \<Longrightarrow> hi \<le> int (length t) \<Longrightarrow>
     \<exists>r. go_slice t lo hi = Some r \<and> int (length r) = hi - lo"
  by (auto simp: go_slice_def)

lemma slice_exec_length:
  assumes "seq_len x = Some l" and "slice_exec i j x = Inr r"
  shows "seq_len r = Some (resolved_upper l j - resolved_lower l i) \<and>
         resolved_lower l i \<le> resolved_upper l j"
  using assms
  by (cases x)
     (auto simp: slice_exec_def go_slice_def split: sum.splits option.splits
           dest!: getBounds_ok [rotated])

lemma slice_exec_succeeds:
  fixes x :: "'f val"
  assumes "seq_len x = Some l" and "resolved_lower l i \<le> resolved_upper l j"
  shows "\<exists>r. slice_exec i j x = Inr r"
proof -
  have l: "0 \<le> l" using assms(1) by (cases x) auto
  have lo: "0 \<le> resolved_lower l i" by (simp add: resolved_lower_def)
  have hi: "resolved_upper l j \<le> l"
    using l by (auto simp: resolved_upper_def split: option.splits)
  have gb: "(getBounds i j l :: 'f qerror + (int \<times> int)) =
              Inr (resolved_lower l i, resolved_upper l j)"
    by (rule getBounds_succeeds [OF l assms(2)])
  show ?thesis
    using assms(1) gb lo hi assms(2)
    by (cases x) (auto simp: slice_exec_def go_slice_def)
qed

lemma spec_slice_length_agrees:
  "0 \<le> l \<Longrightarrow> j = None \<or> (\<exists>j'. j = Some j' \<and> 0 \<le> j') \<Longrightarrow>
     spec_slice_length l i j = max 0 (resolved_upper l j - resolved_lower l i)"
  by (auto simp: spec_slice_length_def resolved_upper_def resolved_lower_def)

text \<open>
  Claim C5, as stated, fails for a negative upper bound, which the code counts from the
  end of the sequence (the method's own documentation gives \<open>"foo bar".slice(0, -4) = "foo"\<close>):
  the result has length 3, the stated formula gives 0.
\<close>

theorem slice_negative_upper_counterexample:
  "slice (VString ''foo bar'') 0 (Some (- 4)) = Inr (VString ''foo'') \<and>
   seq_len (VString ''foo bar'') = Some 7 \<and>
   seq_len (VString ''foo'') \<noteq> Some (spec_slice_length 7 0 (Some (- 4)))"
  by (simp add: slice_def sliceMethod_def slice_exec_def getBounds_def go_slice_def
        spec_slice_length_def)

text \<open>
  Claim C5, amended. Let \<open>l\<close> be the length of a string, byte slice or array \<open>x\<close>.
  Whenever \<open>slice(x, i[, j])\<close> succeeds, its result has length
  \<open>max(0, upper - lower)\<close>, where \<open>lower = max(i + l\<cdot>[i<0], 0)\<close> and \<open>upper\<close> is
  \<open>l\<close> when \<open>j\<close> is omitted, \<open>min(j, l)\<close> when \<open>j \<ge> 0\<close> and \<open>max(0, l + j)\<close> when
  \<open>j < 0\<close>; for \<open>j\<close> omitted or non-negative this is the length the specification
  states. The slice succeeds whenever the literal bounds are not rejected at
  construction (\<open>j > 0\<close> and \<open>i \<ge> j\<close>) and \<open>lower \<le> upper\<close>; in particular it
  succeeds, with an empty result, when the two resolved bounds are equal.
\<close>

theorem slice_length_amended:
  "seq_len x = Some l \<Longrightarrow>
     (\<forall>r. slice x i j = Inr r \<longrightarrow>
        seq_len r = Some (max 0 (resolved_upper l j - resolved_lower l i)) \<and>
        (j = None \<or> (\<exists>j'. j = Some j' \<and> 0 \<le> j') \<longrightarrow>
           seq_len r = Some (spec_slice_length l i j))) \<and>
     (\<not> (\<exists>j'. j = Some j' \<and> 0 < j' \<and> j' \<le> i) \<and>
      resolved_lower l i \<le> resolved_upper l j \<longrightarrow>
        (\<exists>r. slice x i j = Inr r))"
proof (intro conjI allI impI)
  assume x: "seq_len x = Some l"
  then have l: "0 \<le> l" by (cases x) auto
  {
    fix r assume r: "slice x i j = Inr r"
    then have "slice_exec i j x = Inr r"
      by (auto simp: slice_def sliceMethod_def split: option.splits if_splits)
    from slice_exec_length [OF x this]
    show len: "seq_len r = Some (max 0 (resolved_upper l j - resolved_lower l i))"
      by simp
    assume "j = None \<or> (\<exists>j'. j = Some j' \<and> 0 \<le> j')"
    from spec_slice_length_agrees [OF l this] len
    show "seq_len r = Some (spec_slice_length l i j)" by simp
  }
  assume "\<not> (\<exists>j'. j = Some j' \<and> 0 < j' \<and> j' \<le> i) \<and>
          resolved_lower l i \<le> resolved_upper l j"
  then have ns: "sliceMethod i j = (Inr (slice_exec i j) :: 'a qerror + ('a val \<Rightarrow> 'a qerror + 'a val))"
    and le: "resolved_lower l i \<le> resolved_upper l j"
    by (auto simp: sliceMethod_def split: option.splits)
  from slice_exec_succeeds [OF x le] ns
  show "\<exists>r. slice x i j = Inr r" by (simp add: slice_def)
qed

theorem slice_length_amended_witness:
  "seq_len (VString ''foo bar'') = Some 7 \<and>
   slice (VString ''foo bar'') 0 (Some 2) = Inr (VString ''fo'') \<and>
   seq_len (VString ''fo'') = Some (spec_slice_length 7 0 (Some 2)) \<and>
   resolved_lower 7 7 \<le> resolved_upper 7 None \<and>
   (\<exists>r. slice (VString ''foo bar'') 7 None = Inr r)"
proof -
  have x: "seq_len (VString ''foo bar'') = Some 7" by simp
  have a: "slice (VString ''foo bar'') 0 (Some 2) = Inr (VString ''fo'')"
    by (simp add: slice_def sliceMethod_def slice_exec_def getBounds_def go_slice_def)
  have b: "resolved_lower 7 7 \<le> resolved_upper 7 None"
    by (simp add: resolved_lower_def resolved_upper_def)
  note t1 = slice_length_amended [OF x, of 0 "Some 2", THEN conjunct1, rule_format, OF a,
      THEN conjunct2, rule_format]
  have c: "seq_len (VString ''fo'') = Some (spec_slice_length 7 0 (Some 2))"
    by (rule t1) simp
  note t2 = slice_length_amended [OF x, of 7 None, THEN conjunct2, rule_format]
  have d: "\<exists>r. slice (VString ''foo bar'') 7 None = Inr r"
    by (rule t2) (simp add: b)
  from x a b c d show ?thesis by (intro conjI)
qed

subsection \<open>Acknowledgement of the source\<close>


lemma ack_inv_new: "ack_inv new_reader"
  by (simp add: ack_inv_def new_reader_def)

lemma ackOnce_inv: "ack_inv s \<Longrightarrow> ack_inv (snd (ackOnce fn err s))"
  by (simp add: ack_inv_def ackOnce_def)

lemma ackOnce_once: "once (snd (ackOnce fn err s))"
  by (simp add: ackOnce_def)

lemma ackOnce_fields:
  "finished (snd (ackOnce fn err s)) = finished s"
  "pending (snd (ackOnce fn err s)) = pending s"
  by (simp_all add: ackOnce_def)

lemma ack_inv_upd [simp]:
  "ack_inv (s\<lparr>pending := p\<rparr>) = ack_inv s"
  "ack_inv (s\<lparr>finished := f\<rparr>) = ack_inv s"
  by (simp_all add: ack_inv_def)

lemma ackOnce_keeps_once: "once s \<Longrightarrow> once (snd (ackOnce fn err s))"
  by (simp add: ackOnce_def)

lemma partReader_ack_inv: "ack_inv s \<Longrightarrow> ack_inv (snd (partReader_ack fn err s))"
  by (simp add: partReader_ack_def Let_def ackOnce_inv)

lemma partReader_ack_once: "once s \<Longrightarrow> once (snd (partReader_ack fn err s))"
  by (simp add: partReader_ack_def Let_def ackOnce_def)

lemma partReader_Close_inv: "ack_inv s \<Longrightarrow> ack_inv (partReader_Close fn s)"
  by (simp add: partReader_Close_def Let_def ackOnce_inv)

lemma partReader_Close_once: "once s \<Longrightarrow> once (partReader_Close fn s)"
  by (simp add: partReader_Close_def Let_def ackOnce_def)

lemma partReader_Close_fires:
  "\<not> finished s \<or> pending s = 0 \<Longrightarrow> once (partReader_Close fn s)"
  by (auto simp: partReader_Close_def Let_def ackOnce_def)

lemma linesReader_Next_keeps: "next_keeps linesReader_Next"
  by (auto simp: next_keeps_def linesReader_Next_def ackOnce_inv ackOnce_once
           split: scan_result.splits option.splits)

lemma customDelimReader_Next_keeps: "next_keeps customDelimReader_Next"
  by (auto simp: next_keeps_def customDelimReader_Next_def ackOnce_inv ackOnce_once
           split: scan_result.splits option.splits)

lemma csvReader_Next_keeps: "next_keeps (csvReader_Next headers)"
  by (auto simp: next_keeps_def csvReader_Next_def Let_def ackOnce_inv ackOnce_once
           split: csv_result.splits)

lemma chunkerReader_Next_keeps: "next_keeps chunkerReader_Next"
  by (auto simp: next_keeps_def chunkerReader_Next_def Let_def ackOnce_inv ackOnce_once
           split: read_result.splits option.splits)

lemma tarReader_Next_keeps: "next_keeps tarReader_Next"
  by (auto simp: next_keeps_def tarReader_Next_def ackOnce_inv ackOnce_once
           split: tar_result.splits)

lemma reader_step_inv:
  "next_keeps nxt \<Longrightarrow> ack_inv s \<Longrightarrow> ack_inv (reader_step nxt fn c s)"
  by (cases c)
     (auto simp: reader_step_def next_keeps_def partReader_ack_inv partReader_Close_inv)

lemma reader_step_once:
  "next_keeps nxt \<Longrightarrow> once s \<Longrightarrow> once (reader_step nxt fn c s)"
  by (cases c)
     (auto simp: reader_step_def next_keeps_def partReader_ack_once partReader_Close_once)

lemma reader_run_append:
  "reader_run nxt fn (cs @ cs') s = reader_run nxt fn cs' (reader_run nxt fn cs s)"
  by (simp add: reader_run_def)

lemma reader_run_Cons:
  "reader_run nxt fn (c # cs) s = reader_run nxt fn cs (reader_step nxt fn c s)"
  by (simp add: reader_run_def)

lemma reader_run_inv:
  "next_keeps nxt \<Longrightarrow> ack_inv s \<Longrightarrow> ack_inv (reader_run nxt fn cs s)"
  by (induction cs arbitrary: s) (simp_all add: reader_run_def reader_step_inv)

lemma reader_run_once:
  "next_keeps nxt \<Longrightarrow> once s \<Longrightarrow> once (reader_run nxt fn cs s)"
  by (induction cs arbitrary: s) (simp_all add: reader_run_def reader_step_once)

lemma at_most_once:
  "next_keeps nxt \<Longrightarrow> length (calls (reader_run nxt fn cs new_reader)) \<le> 1"
  using reader_run_inv [OF _ ack_inv_new, of nxt fn cs]
  by (simp add: ack_inv_def split: if_splits)

lemma once_after_Close:
  assumes k: "next_keeps nxt"
    and c: "\<not> finished (reader_run nxt fn cs new_reader) \<or>
            pending (reader_run nxt fn cs new_reader) = 0"
  shows "length (calls (reader_run nxt fn (cs @ CallClose # cs') new_reader)) = 1"
proof -
  let ?s = "reader_run nxt fn cs new_reader"
  have "once (reader_step nxt fn CallClose ?s)"
    using partReader_Close_fires [OF c] by (simp add: reader_step_def)
  then have "once (reader_run nxt fn (cs @ CallClose # cs') new_reader)"
    by (simp add: reader_run_append reader_run_Cons reader_run_once [OF k])
  moreover have "ack_inv (reader_run nxt fn (cs @ CallClose # cs') new_reader)"
    by (rule reader_run_inv [OF k ack_inv_new])
  ultimately show ?thesis by (simp add: ack_inv_def)
qed

subsection \<open>The multipart wrapper\<close>


lemma isEmpty_Nil [simp]: "isEmpty get []"
  by (simp add: isEmpty_def)

lemma not_isEmpty_nonempty: "\<not> isEmpty get p \<Longrightarrow> p \<noteq> []"
  by (auto simp: isEmpty_def)

lemma loop_nonempty_step:
  "Next R s = (Inr (np, a), s1) \<Longrightarrow> \<not> isEmpty get np \<Longrightarrow>
     multipart_loop R get parts acks s = multipart_loop R get (parts @ np) (acks @ [a]) s1"
  by (subst multipart_loop.simps) simp

lemma loop_empty_flush:
  "Next R s = (Inr (np, Some a), s1) \<Longrightarrow> isEmpty get np \<Longrightarrow> parts \<noteq> [] \<Longrightarrow>
     multipart_loop R get parts acks s = Some (Inr (parts, acks), snd (Ack R a None s1))"
  by (subst multipart_loop.simps) (simp add: Let_def)

lemma loop_empty_skip:
  "Next R s = (Inr (np, Some a), s1) \<Longrightarrow> isEmpty get np \<Longrightarrow>
     multipart_loop R get [] acks s = multipart_loop R get [] acks (snd (Ack R a None s1))"
  by (subst multipart_loop.simps) (simp add: Let_def)

lemma loop_nil_ack_panics:
  "Next R s = (Inr (np, None), s1) \<Longrightarrow> isEmpty get np \<Longrightarrow>
     multipart_loop R get parts acks s = Some (Inl PanicNilDeref, s1)"
  by (subst multipart_loop.simps) simp

lemma loop_eof_flush:
  "Next R s = (Inl err, s1) \<Longrightarrow> errors_Is_EOF err \<Longrightarrow> parts \<noteq> [] \<Longrightarrow>
     multipart_loop R get parts acks s = Some (Inr (parts, acks), s1)"
  by (subst multipart_loop.simps) simp

lemma loop_err:
  "Next R s = (Inl err, s1) \<Longrightarrow> \<not> errors_Is_EOF err \<or> parts = [] \<Longrightarrow>
     multipart_loop R get parts acks s = Some (Inl err, s1)"
  by (subst multipart_loop.simps) auto

lemma loop_accumulates:
  "upstream_yields R get s bs s' \<Longrightarrow>
     multipart_loop R get parts acks s =
     multipart_loop R get (parts @ concat (map fst bs)) (acks @ map snd bs) s'"
proof (induction bs arbitrary: s parts acks)
  case Nil
  then show ?case by simp
next
  case (Cons b bs)
  obtain np a where b: "b = (np, a)" by (cases b)
  from Cons.prems obtain s1 where
    n: "Next R s = (Inr (np, a), s1)" and ne: "\<not> isEmpty get np"
    and rest: "upstream_yields R get s1 bs s'"
    by (auto simp: b split: prod.splits sum.splits)
  show ?case
    using loop_nonempty_step [OF n ne, of parts acks] Cons.IH [OF rest, of "parts @ np" "acks @ [a]"]
    by (simp add: b)
qed

lemma batches_of_Inl: "batches_of get parts acks (Inl err)"
  by (simp add: batches_of_def)

lemma batches_of_here: "parts \<noteq> [] \<Longrightarrow> batches_of get parts acks (Inr (parts, acks))"
  unfolding batches_of_def by (intro allI impI conjI exI [of _ "[]"]) auto

lemma batches_of_step:
  assumes "batches_of get (parts @ np) (acks @ [a]) r" and "\<not> isEmpty get np"
  shows "batches_of get parts acks r"
  unfolding batches_of_def
proof (intro allI impI)
  fix ps as assume "r = Inr (ps, as)"
  with assms(1) obtain bs where ne: "ps \<noteq> []"
    and ps: "ps = (parts @ np) @ concat (map fst bs)"
    and as: "as = (acks @ [a]) @ map snd bs"
    and bs: "\<forall>b \<in> set bs. \<not> isEmpty get (fst b)"
    unfolding batches_of_def by blast
  have "ps = parts @ concat (map fst ((np, a) # bs)) \<and>
        as = acks @ map snd ((np, a) # bs) \<and>
        (\<forall>b \<in> set ((np, a) # bs). \<not> isEmpty get (fst b))"
    using ps as bs assms(2) by simp
  with ne show "ps \<noteq> [] \<and> (\<exists>bs. ps = parts @ concat (map fst bs) \<and>
      as = acks @ map snd bs \<and> (\<forall>b \<in> set bs. \<not> isEmpty get (fst b)))"
    by blast
qed

lemma loop_result_batches:
  assumes "multipart_loop R get parts acks s = Some y"
  shows "batches_of get parts acks (fst y)"
proof (rule multipart_loop.raw_induct
    [where P = "\<lambda>R get parts acks s y. batches_of get parts acks (fst y)", OF _ assms], goal_cases)
  case (1 loop R get parts acks s y)
  note IH = 1(1) and body = 1(2)
  show ?case
  proof (cases "Next R s")
    case (Pair res s1)
    show ?thesis
    proof (cases res)
      case (Inl err)
      with body Pair show ?thesis
        by (auto split: if_splits simp: batches_of_Inl batches_of_here)
    next
      case (Inr b)
      obtain np a where b: "b = (np, a)" by (cases b)
      show ?thesis
      proof (cases "isEmpty get np")
        case True
        show ?thesis
        proof (cases a)
          case None
          with body Pair Inr b True have "y = (Inl PanicNilDeref, s1)" by simp
          then show ?thesis by (simp add: batches_of_Inl)
        next
          case (Some fn)
          show ?thesis
          proof (cases "parts = []")
            case True
            with body Pair Inr b Some \<open>isEmpty get np\<close>
            have "loop R get parts acks (snd (Ack R fn None s1)) = Some y"
              by (simp add: Let_def)
            from IH [OF this] show ?thesis .
          next
            case False
            with body Pair Inr b Some \<open>isEmpty get np\<close> show ?thesis
              by (auto simp: Let_def batches_of_here)
          qed
        qed
      next
        case False
        with body Pair Inr b
        have "loop R get (parts @ np) (acks @ [a]) s1 = Some y" by simp
        from batches_of_step [OF IH [OF this] False] show ?thesis .
      qed
    qed
  qed
qed

lemma loop_keeps:
  assumes "multipart_loop R get parts acks s = Some y"
  shows "upstream_keeps R I \<longrightarrow> I s \<longrightarrow> I (snd y)"
proof (rule multipart_loop.raw_induct
    [where P = "\<lambda>R get parts acks s y. upstream_keeps R I \<longrightarrow> I s \<longrightarrow> I (snd y)", OF _ assms], goal_cases)
  case (1 loop R get parts acks s y)
  note IH = 1(1) and body = 1(2)
  show ?case
  proof (intro impI)
    assume k: "upstream_keeps R I" and s: "I s"
    show "I (snd y)"
    proof (cases "Next R s")
      case (Pair res s1)
      have "I (snd (Next R s))" using k s by (simp add: upstream_keeps_def)
      with Pair have s1: "I s1" by simp
      show ?thesis
      proof (cases res)
        case (Inl err)
        with body Pair s1 show ?thesis by (auto split: if_splits)
      next
        case (Inr b)
        obtain np a where b: "b = (np, a)" by (cases b)
        show ?thesis
        proof (cases "isEmpty get np")
          case True
          show ?thesis
          proof (cases a)
            case None
            with body Pair Inr b True have "y = (Inl PanicNilDeref, s1)" by simp
            with s1 show ?thesis by simp
          next
            case (Some fn)
            have s2: "I (snd (Ack R fn None s1))"
              using k s1 by (simp add: upstream_keeps_def)
            show ?thesis
            proof (cases "parts = []")
              case True
              with body Pair Inr b Some \<open>isEmpty get np\<close>
              have "loop R get parts acks (snd (Ack R fn None s1)) = Some y"
                by (simp add: Let_def)
              from IH [OF this] k s2 show ?thesis by blast
            next
              case False
              with body Pair Inr b Some \<open>isEmpty get np\<close> s2 show ?thesis
                by (auto simp: Let_def)
            qed
          qed
        next
          case False
          with body Pair Inr b
          have "loop R get (parts @ np) (acks @ [a]) s1 = Some y" by simp
          from IH [OF this] k s1 show ?thesis by blast
        qed
      qed
    qed
  qed
qed

lemma ackFn_keeps:
  "upstream_keeps R I \<Longrightarrow> I s \<Longrightarrow> I (snd (multipart_ackFn R acks err s))"
proof (induction R acks err s rule: multipart_ackFn.induct)
  case (3 R fn acks err s)
  from "3.prems" have "I (snd (Ack R fn err s))"
    by (auto simp: upstream_keeps_def)
  from "3.IH" [OF "3.prems"(1) this] show ?case by simp
qed simp_all

lemma Close_keeps:
  "upstream_keeps R I \<Longrightarrow> I s \<Longrightarrow> I (snd (multipartReader_Close R s))"
  by (auto simp: upstream_keeps_def multipartReader_Close_def)

subsection \<open>A source without parts\<close>

lemma run_eofs_from:
  assumes "\<And>s. snd (nxt fn rd s) = s\<lparr>finished := True\<rparr>"
  shows "reader_run nxt fn (replicate (Suc n) (CallNext rd)) s = s\<lparr>finished := True\<rparr>"
proof (induction n arbitrary: s)
  case 0
  show ?case by (simp add: reader_run_def reader_step_def assms)
next
  case (Suc n)
  have "reader_run nxt fn (replicate (Suc (Suc n)) (CallNext rd)) s =
        reader_run nxt fn (replicate (Suc n) (CallNext rd)) (s\<lparr>finished := True\<rparr>)"
    by (simp add: reader_run_def reader_step_def assms)
  then show ?case by (simp only: Suc.IH) simp
qed

lemma run_eofs:
  assumes "\<And>s. snd (nxt fn rd s) = s\<lparr>finished := True\<rparr>"
  shows "reader_run nxt fn (replicate (Suc n) (CallNext rd)) new_reader =
           new_reader\<lparr>finished := True\<rparr>"
  using assms by (rule run_eofs_from [of nxt fn rd])

lemma eof_then_Close:
  assumes "\<And>s. snd (nxt fn rd s) = s\<lparr>finished := True\<rparr>"
  shows "calls (reader_run nxt fn (replicate (Suc n) (CallNext rd)) new_reader) = [] \<and>
         calls (reader_run nxt fn (replicate (Suc n) (CallNext rd) @ [CallClose]) new_reader)
           = [None]"
  unfolding reader_run_append run_eofs [of nxt fn rd n, OF assms]
  by (simp add: reader_run_def reader_step_def partReader_Close_def ackOnce_def
        new_reader_def)

lemma linesReader_eof: "snd (linesReader_Next fn (ScanStop None) s) = s\<lparr>finished := True\<rparr>"
  by (simp add: linesReader_Next_def)

lemma customDelimReader_eof:
  "snd (customDelimReader_Next fn (ScanStop None) s) = s\<lparr>finished := True\<rparr>"
  by (simp add: customDelimReader_Next_def)

lemma csvReader_eof:
  "snd (csvReader_Next headers fn (CsvErr EOF) s) = s\<lparr>finished := True\<rparr>"
  by (simp add: csvReader_Next_def)

lemma chunkerReader_eof:
  "snd (chunkerReader_Next fn (ReadResult [] (Some EOF)) s) = s\<lparr>finished := True\<rparr>"
  by (simp add: chunkerReader_Next_def)

lemma tarReader_eof: "snd (tarReader_Next fn (TarNextErr EOF) s) = s\<lparr>finished := True\<rparr>"
  by (simp add: tarReader_Next_def)

text \<open>
  Claim C10. A source without parts: every call of \<^verbatim>\<open>Next\<close> of the readers
  \<^verbatim>\<open>lines\<close>, \<^verbatim>\<open>csv\<close>, \<^verbatim>\<open>delim\<close>, \<^verbatim>\<open>chunker\<close> and \<^verbatim>\<open>tar\<close> finds the end of the
  source. However many times \<^verbatim>\<open>Next\<close> is called, the source acknowledgement is not
  invoked; a call of \<^verbatim>\<open>Close\<close> after them invokes it, once, with nil.
\<close>

theorem empty_source_acked_by_Close:
  "calls (reader_run linesReader_Next fn
            (replicate (Suc n) (CallNext (ScanStop None))) new_reader) = [] \<and>
   calls (reader_run linesReader_Next fn
            (replicate (Suc n) (CallNext (ScanStop None)) @ [CallClose]) new_reader) = [None] \<and>
   calls (reader_run (csvReader_Next headers) fn
            (replicate (Suc n) (CallNext (CsvErr EOF))) new_reader) = [] \<and>
   calls (reader_run (csvReader_Next headers) fn
            (replicate (Suc n) (CallNext (CsvErr EOF)) @ [CallClose]) new_reader) = [None] \<and>
   calls (reader_run customDelimReader_Next fn
            (replicate (Suc n) (CallNext (ScanStop None))) new_reader) = [] \<and>
   calls (reader_run customDelimReader_Next fn
            (replicate (Suc n) (CallNext (ScanStop None)) @ [CallClose]) new_reader) = [None] \<and>
   calls (reader_run chunkerReader_Next fn
            (replicate (Suc n) (CallNext (ReadResult [] (Some EOF)))) new_reader) = [] \<and>
   calls (reader_run chunkerReader_Next fn
            (replicate (Suc n) (CallNext (ReadResult [] (Some EOF))) @ [CallClose]) new_reader)
     = [None] \<and>
   calls (reader_run tarReader_Next fn
            (replicate (Suc n) (CallNext (TarNextErr EOF))) new_reader) = [] \<and>
   calls (reader_run tarReader_Next fn
            (replicate (Suc n) (CallNext (TarNextErr EOF)) @ [CallClose]) new_reader) = [None]"
  using eof_then_Close [of linesReader_Next fn "ScanStop None" n, OF linesReader_eof]
    eof_then_Close [of "csvReader_Next headers" fn "CsvErr EOF" n, OF csvReader_eof]
    eof_then_Close [of customDelimReader_Next fn "ScanStop None" n, OF customDelimReader_eof]
    eof_then_Close [of chunkerReader_Next fn "ReadResult [] (Some EOF)" n, OF chunkerReader_eof]
    eof_then_Close [of tarReader_Next fn "TarNextErr EOF" n, OF tarReader_eof]
  by blast

subsection \<open>The source acknowledgement is invoked once\<close>

text \<open>
  \<^verbatim>\<open>Next\<close> of each of the five readers adds one to \<^verbatim>\<open>pending\<close> exactly when it
  returns a part, and never clears \<^verbatim>\<open>finished\<close>.
\<close>

lemma linesReader_Next_counts: "next_counts linesReader_Next"
  by (auto simp: next_counts_def linesReader_Next_def ackOnce_def
           split: scan_result.splits option.splits)

lemma customDelimReader_Next_counts: "next_counts customDelimReader_Next"
  by (auto simp: next_counts_def customDelimReader_Next_def ackOnce_def
           split: scan_result.splits option.splits)

lemma csvReader_Next_counts: "next_counts (csvReader_Next headers)"
  by (auto simp: next_counts_def csvReader_Next_def Let_def ackOnce_def
           split: csv_result.splits)

lemma chunkerReader_Next_counts: "next_counts chunkerReader_Next"
  by (auto simp: next_counts_def chunkerReader_Next_def Let_def ackOnce_def
           split: read_result.splits option.splits)

lemma tarReader_Next_counts: "next_counts tarReader_Next"
  by (auto simp: next_counts_def tarReader_Next_def ackOnce_def
           split: tar_result.splits)

text \<open>
  In a complete lifetime every part returned is acknowledged once and \<^verbatim>\<open>Close\<close> is
  called: whichever of the last acknowledgement, the end of the source and \<^verbatim>\<open>Close\<close>
  comes last finds \<^verbatim>\<open>pending\<close> at 0 or \<^verbatim>\<open>finished\<close> unset and invokes the source
  acknowledgement.
\<close>

lemma lifetime_inv_new: "lifetime_inv new_reader 0 False"
  by (simp add: lifetime_inv_def ack_inv_def new_reader_def)

lemma lifetime_inv_Next:
  assumes k: "next_keeps nxt" and c: "next_counts nxt"
    and np: "fst (nxt fn rd s) \<noteq> NextErr PanicIndex"
    and inv: "lifetime_inv s out cl"
  shows "lifetime_inv (snd (nxt fn rd s))
           (if is_parts (fst (nxt fn rd s)) then out + 1 else out) cl"
proof -
  let ?s' = "snd (nxt fn rd s)"
  from k inv have a: "ack_inv ?s'" by (simp add: next_keeps_def lifetime_inv_def)
  from c np have p: "pending ?s' = pending s + (if is_parts (fst (nxt fn rd s)) then 1 else 0)"
    and f: "finished s \<longrightarrow> finished ?s'"
    by (simp_all add: next_counts_def)
  show ?thesis
  proof (cases "once ?s'")
    case True
    with a show ?thesis by (simp add: lifetime_inv_def)
  next
    case False
    with k have "\<not> once s" by (auto simp: next_keeps_def)
    with inv have "pending s = of_nat out" and "cl \<longrightarrow> finished s \<and> out > 0"
      by (simp_all add: lifetime_inv_def)
    with a p f show ?thesis by (simp add: lifetime_inv_def)
  qed
qed

lemma lifetime_inv_ack:
  assumes inv: "lifetime_inv s out cl" and pos: "out > 0"
  shows "lifetime_inv (snd (partReader_ack fn err s)) (out - 1) cl"
proof -
  let ?s' = "snd (partReader_ack fn err s)"
  from inv have a: "ack_inv ?s'" by (simp add: lifetime_inv_def partReader_ack_inv)
  show ?thesis
  proof (cases "once ?s'")
    case True
    with a show ?thesis by (simp add: lifetime_inv_def)
  next
    case False
    then have no: "\<not> once s" using partReader_ack_once by blast
    from False have e: "err = None"
      by (auto simp: partReader_ack_def Let_def ackOnce_def split: if_splits)
    from False e have nd: "\<not> (pending s - 1 = 0 \<and> finished s)"
      by (auto simp: partReader_ack_def Let_def ackOnce_def split: if_splits)
    from e nd have s': "?s' = s\<lparr>pending := pending s - 1\<rparr>"
      by (auto simp: partReader_ack_def Let_def)
    from inv no have p: "pending s = of_nat out" and c: "cl \<longrightarrow> finished s \<and> out > 0"
      by (simp_all add: lifetime_inv_def)
    from pos have on: "(of_nat out :: 32 word) - 1 = of_nat (out - 1)"
      by (cases out) simp_all
    have "cl \<longrightarrow> out - 1 > 0"
    proof
      assume cl
      with c have "finished s" by simp
      with nd have "pending s - 1 \<noteq> 0" by simp
      with p on have "(of_nat (out - 1) :: 32 word) \<noteq> 0" by simp
      then show "out - 1 > 0" by (cases "out - 1") simp_all
    qed
    with a False p c on show ?thesis by (simp add: lifetime_inv_def s')
  qed
qed

lemma lifetime_inv_Close:
  assumes inv: "lifetime_inv s out cl"
  shows "lifetime_inv (partReader_Close fn s) out True"
proof -
  let ?s' = "partReader_Close fn s"
  from inv have a: "ack_inv ?s'" by (simp add: lifetime_inv_def partReader_Close_inv)
  show ?thesis
  proof (cases "once ?s'")
    case True
    with a show ?thesis by (simp add: lifetime_inv_def)
  next
    case False
    then have f: "finished s" and pn: "pending s \<noteq> 0"
      using partReader_Close_fires [of s fn] by auto
    from False have no: "\<not> once s" using partReader_Close_once by blast
    from f pn have s': "?s' = s" by (simp add: partReader_Close_def)
    from inv no have p: "pending s = of_nat out" by (simp add: lifetime_inv_def)
    with pn have "out > 0" by (cases out) simp_all
    with a p f no show ?thesis by (simp add: lifetime_inv_def s')
  qed
qed

lemma lifetime_fires:
  assumes k: "next_keeps nxt" and c: "next_counts nxt"
  shows "lifetime_ok nxt fn cs s out cl \<Longrightarrow> lifetime_inv s out cl \<Longrightarrow>
           once (reader_run nxt fn cs s)"
proof (induction cs arbitrary: s out cl)
  case Nil
  then show ?case by (auto simp: lifetime_inv_def reader_run_def)
next
  case (Cons call cs)
  show ?case
  proof (cases call)
    case (CallNext rd)
    let ?r = "fst (nxt fn rd s)" and ?s' = "snd (nxt fn rd s)"
    from Cons.prems(1) CallNext have np: "?r \<noteq> NextErr PanicIndex"
      by (auto split: next_result.splits)
    from Cons.prems(1) CallNext
    have ok: "lifetime_ok nxt fn cs ?s' (if is_parts ?r then out + 1 else out) cl"
      by (cases ?r) simp_all
    from Cons.IH [OF ok lifetime_inv_Next [OF k c np Cons.prems(2)]]
    show ?thesis by (simp add: CallNext reader_run_Cons reader_step_def)
  next
    case (CallAck err)
    with Cons.prems(1) have pos: "out > 0"
      and ok: "lifetime_ok nxt fn cs (snd (partReader_ack fn err s)) (out - 1) cl"
      by simp_all
    from Cons.IH [OF ok lifetime_inv_ack [OF Cons.prems(2) pos]]
    show ?thesis by (simp add: CallAck reader_run_Cons reader_step_def)
  next
    case CallClose
    with Cons.prems(1) have ok: "lifetime_ok nxt fn cs (partReader_Close fn s) out True"
      by simp
    from Cons.IH [OF ok lifetime_inv_Close [OF Cons.prems(2)]]
    show ?thesis by (simp add: CallClose reader_run_Cons reader_step_def)
  qed
qed

lemma once_in_lifetime:
  assumes k: "next_keeps nxt" and c: "next_counts nxt"
    and ok: "lifetime_ok nxt fn cs new_reader 0 False"
  shows "length (calls (reader_run nxt fn cs new_reader)) = 1"
proof -
  have "once (reader_run nxt fn cs new_reader)"
    by (rule lifetime_fires [OF k c ok lifetime_inv_new])
  moreover have "ack_inv (reader_run nxt fn cs new_reader)"
    by (rule reader_run_inv [OF k ack_inv_new])
  ultimately show ?thesis by (simp add: ack_inv_def)
qed

text \<open>The acknowledgement of a part with an error invokes the source acknowledgement at once.\<close>

lemma once_after_error_ack:
  assumes k: "next_keeps nxt"
  shows "length (calls (reader_run nxt fn (cs @ CallAck (Some e) # cs') new_reader)) = 1"
proof -
  let ?s = "reader_run nxt fn cs new_reader"
  have "once (reader_step nxt fn (CallAck (Some e)) ?s)"
    by (simp add: reader_step_def partReader_ack_def Let_def ackOnce_def)
  then have "once (reader_run nxt fn (cs @ CallAck (Some e) # cs') new_reader)"
    by (simp add: reader_run_append reader_run_Cons reader_run_once [OF k])
  moreover have "ack_inv (reader_run nxt fn (cs @ CallAck (Some e) # cs') new_reader)"
    by (rule reader_run_inv [OF k ack_inv_new])
  ultimately show ?thesis by (simp add: ack_inv_def)
qed

lemma acks_source_onceI:
  assumes k: "next_keeps nxt" and c: "next_counts nxt"
  shows "acks_source_once nxt fn cs cs' e"
  unfolding acks_source_once_def
proof (intro conjI impI)
  show "length (calls (reader_run nxt fn cs new_reader)) \<le> 1"
    by (rule at_most_once [OF k])
  show "length (calls (reader_run nxt fn (cs @ CallAck (Some e) # cs') new_reader)) = 1"
    by (rule once_after_error_ack [OF k])
next
  assume "lifetime_ok nxt fn cs new_reader 0 False"
  then show "length (calls (reader_run nxt fn cs new_reader)) = 1"
    by (rule once_in_lifetime [OF k c])
next
  assume "Close_fires nxt fn cs"
  then show "length (calls (reader_run nxt fn (cs @ CallClose # cs') new_reader)) = 1"
    unfolding Close_fires_def by (rule once_after_Close [OF k])
qed

text \<open>A reader seen as the upstream reader of a multipart wrapper keeps the invariant too.\<close>

lemma leaf_upstream_Next_state:
  "snd (Next (leaf_upstream nxt at_end fn) (src, st)) =
     (tl src, snd (nxt fn (case src of [] \<Rightarrow> at_end | x # xs \<Rightarrow> x) st))"
  by (simp add: leaf_upstream_def split: prod.splits next_result.splits)

lemma leaf_upstream_Ack_state:
  "snd (Ack (leaf_upstream nxt at_end fn) a e (src, st)) = (src, snd (partReader_ack fn e st))"
  by (simp add: leaf_upstream_def split: prod.splits)

lemma leaf_upstream_Close_state:
  "snd (Close (leaf_upstream nxt at_end fn) (src, st)) = (src, partReader_Close fn st)"
  by (simp add: leaf_upstream_def)

lemma leaf_upstream_keeps:
  assumes k: "next_keeps nxt"
  shows "upstream_keeps (leaf_upstream nxt at_end fn) (\<lambda>(src, s). ack_inv s)"
  unfolding upstream_keeps_def
proof (intro allI impI conjI)
  fix s :: "'a list \<times> reader_st"
  obtain src st where s: "s = (src, st)" by (cases s)
  assume "case s of (src, s) \<Rightarrow> ack_inv s"
  then have st: "ack_inv st" by (simp add: s)
  show "case snd (Next (leaf_upstream nxt at_end fn) s) of (src, s) \<Rightarrow> ack_inv s"
    using k st by (simp add: s leaf_upstream_Next_state next_keeps_def)
  show "case snd (Close (leaf_upstream nxt at_end fn) s) of (src, s) \<Rightarrow> ack_inv s"
    using st by (simp add: s leaf_upstream_Close_state partReader_Close_inv)
  fix a e
  show "case snd (Ack (leaf_upstream nxt at_end fn) a e s) of (src, s) \<Rightarrow> ack_inv s"
    using st by (simp add: s leaf_upstream_Ack_state partReader_ack_inv)
qed

lemma lines_upstream_keeps:
  "upstream_keeps (lines_upstream fn) (\<lambda>(src, s). ack_inv s)"
  unfolding lines_upstream_def by (rule leaf_upstream_keeps [OF linesReader_Next_keeps])

text \<open>
  Claim C1, as stated, fails: a \<^verbatim>\<open>lines\<close> reader that emits one part, sees the end
  of its source and is closed, while the part is never acknowledged, has not invoked the
  source acknowledgement at all (\<^verbatim>\<open>Close\<close> finds \<^verbatim>\<open>finished\<close> set and one part
  pending).
\<close>

theorem source_ack_never_fired_counterexample:
  "length (calls (reader_run linesReader_Next (\<lambda>err. None)
      [CallNext (Scanned ''a''), CallNext (ScanStop None), CallClose] new_reader)) \<noteq> 1"
  by (simp add: reader_run_def reader_step_def linesReader_Next_def partReader_Close_def
        new_reader_def)

text \<open>
  \<^verbatim>\<open>allBytesReader\<close> hands out the source acknowledgement itself: acknowledging its
  part twice invokes it twice.
\<close>

lemma allBytesReader_acks_twice:
  "ab_calls (allBytes_run (\<lambda>err. None)
      [CallNext (Inr ''a''), CallAck None, CallAck None] new_allBytesReader) = [None, None]"
  by (simp add: allBytes_run_def allBytes_step_def allBytesReader_Next_def
        allBytesReader_ack_def new_allBytesReader_def)

text \<open>
  Claim C1, amended. For the readers \<^verbatim>\<open>lines\<close>, \<^verbatim>\<open>csv\<close>, \<^verbatim>\<open>delim\<close>,
  \<^verbatim>\<open>chunker\<close> and \<^verbatim>\<open>tar\<close>, under any sequence of calls of \<^verbatim>\<open>Next\<close> (whatever the
  source returns), of acknowledgements of parts (with nil or an error) and of
  \<^verbatim>\<open>Close\<close>, the source acknowledgement is invoked at most once. It has been invoked
  exactly once at the end of every lifetime in which each part returned by \<^verbatim>\<open>Next\<close>
  is acknowledged once and \<^verbatim>\<open>Close\<close> is called, in whatever order: the last
  acknowledgement of a part invokes it with nil when the end of the source has been
  seen. It has also been invoked exactly once after any sequence of calls in which a part
  is acknowledged with an error, or in which \<^verbatim>\<open>Close\<close> is called while the end of the
  source has not been seen or no part is pending, whatever is called afterwards.
  A multipart wrapper keeps every property of its upstream reader's state that the
  upstream reader's own operations keep, so the source acknowledgement of a chain of
  wrappers over one of these readers is invoked at most once as well.
\<close>

theorem source_ack_invoked_once:
  "acks_source_once linesReader_Next fn c1 d1 e \<and>
   acks_source_once (csvReader_Next headers) fn c2 d2 e \<and>
   acks_source_once customDelimReader_Next fn c3 d3 e \<and>
   acks_source_once chunkerReader_Next fn c4 d4 e \<and>
   acks_source_once tarReader_Next fn c5 d5 e \<and>
   (upstream_keeps R I \<and> I s \<longrightarrow>
      (\<forall>y. multipartReader_Next R get s = Some y \<longrightarrow> I (snd y)) \<and>
      I (snd (multipart_ackFn R acks err s)) \<and>
      I (snd (multipartReader_Close R s)))"
proof (intro conjI impI allI)
  show "acks_source_once linesReader_Next fn c1 d1 e"
    by (rule acks_source_onceI [OF linesReader_Next_keeps linesReader_Next_counts])
  show "acks_source_once (csvReader_Next headers) fn c2 d2 e"
    by (rule acks_source_onceI [OF csvReader_Next_keeps csvReader_Next_counts])
  show "acks_source_once customDelimReader_Next fn c3 d3 e"
    by (rule acks_source_onceI [OF customDelimReader_Next_keeps customDelimReader_Next_counts])
  show "acks_source_once chunkerReader_Next fn c4 d4 e"
    by (rule acks_source_onceI [OF chunkerReader_Next_keeps chunkerReader_Next_counts])
  show "acks_source_once tarReader_Next fn c5 d5 e"
    by (rule acks_source_onceI [OF tarReader_Next_keeps tarReader_Next_counts])
next
  fix y
  assume "upstream_keeps R I \<and> I s" and "multipartReader_Next R get s = Some y"
  then show "I (snd y)"
    using loop_keeps [of R get "[]" "[]" s y I] by (simp add: multipartReader_Next_def)
next
  assume "upstream_keeps R I \<and> I s"
  then show "I (snd (multipart_ackFn R acks err s))" by (simp add: ackFn_keeps)
next
  assume "upstream_keeps R I \<and> I s"
  then show "I (snd (multipartReader_Close R s))" by (simp add: Close_keeps)
qed

subsection \<open>Batches of the multipart wrapper\<close>

lemma lines_upstream_Next_Scanned:
  "Next (lines_upstream fn) (Scanned b # src, st) =
     (Inr ([b], Some ()), (src, st\<lparr>pending := pending st + 1\<rparr>))"
  by (simp add: lines_upstream_def leaf_upstream_def linesReader_Next_def)

lemma lines_upstream_Next_end:
  "Next (lines_upstream fn) ([], st) = (Inl EOF, ([], st\<lparr>finished := True\<rparr>))"
  by (simp add: lines_upstream_def leaf_upstream_def linesReader_Next_def)

lemma lines_upstream_Ack_state:
  "snd (Ack (lines_upstream fn) a e (src, st)) = (src, snd (partReader_ack fn e st))"
  unfolding lines_upstream_def by (rule leaf_upstream_Ack_state)

lemma chunker_upstream_Next_zero:
  "\<not> finished st \<Longrightarrow>
     Next (chunker_upstream fn) (ReadResult [] None # src, st) = (Inr ([], None), (src, st))"
  by (simp add: chunker_upstream_def leaf_upstream_def chunkerReader_Next_def)

text \<open>
  A result is empty when it has no part, or one part with an empty payload. An empty
  result that comes with an acknowledgement is acknowledged with nil; it is skipped when
  no part has been accumulated, and ends the batch otherwise. An empty result that comes
  with a nil acknowledgement stops \<^verbatim>\<open>Next\<close> with a nil dereference, whatever has been
  accumulated.
\<close>

lemma isEmpty_iff: "isEmpty get p \<longleftrightarrow> p = [] \<or> (\<exists>x. p = [x] \<and> get x = [])"
  by (cases p) (auto simp: isEmpty_def)

lemma Next_skips_empty:
  "Next R s = (Inr (np, Some a), s1) \<Longrightarrow> isEmpty get np \<Longrightarrow>
     multipartReader_Next R get s = multipartReader_Next R get (snd (Ack R a None s1))"
  unfolding multipartReader_Next_def by (rule loop_empty_skip)

lemma Next_nil_ack_panics:
  "Next R s = (Inr (np, None), s1) \<Longrightarrow> isEmpty get np \<Longrightarrow>
     multipartReader_Next R get s = Some (Inl PanicNilDeref, s1)"
  unfolding multipartReader_Next_def by (rule loop_nil_ack_panics)

lemma upstream_yields_nonempty:
  "upstream_yields R get s bs s' \<Longrightarrow> bs \<noteq> [] \<Longrightarrow> concat (map fst bs) \<noteq> []"
  by (cases bs) (auto simp: isEmpty_def split: prod.splits sum.splits if_splits)

lemma Next_batch_until_empty:
  assumes "upstream_yields R get s bs s1" and "bs \<noteq> []"
    and "Next R s1 = (Inr (np, Some a), s2)" and "isEmpty get np"
  shows "multipartReader_Next R get s =
           Some (Inr (concat (map fst bs), map snd bs), snd (Ack R a None s2))"
  using loop_accumulates [OF assms(1), of "[]" "[]"]
    loop_empty_flush [OF assms(3,4) upstream_yields_nonempty [OF assms(1,2)],
      where acks = "map snd bs"]
  by (simp add: multipartReader_Next_def)

lemma Next_batch_until_nil_ack:
  assumes "upstream_yields R get s bs s1"
    and "Next R s1 = (Inr (np, None), s2)" and "isEmpty get np"
  shows "multipartReader_Next R get s = Some (Inl PanicNilDeref, s2)"
  using loop_accumulates [OF assms(1), of "[]" "[]"]
    loop_nil_ack_panics [OF assms(2,3), where parts = "concat (map fst bs)"
      and acks = "map snd bs"]
  by (simp add: multipartReader_Next_def)

lemma Next_batch_until_EOF:
  assumes "upstream_yields R get s bs s1" and "bs \<noteq> []"
    and "Next R s1 = (Inl err, s2)" and "errors_Is_EOF err"
  shows "multipartReader_Next R get s = Some (Inr (concat (map fst bs), map snd bs), s2)"
  using loop_accumulates [OF assms(1), of "[]" "[]"]
    loop_eof_flush [OF assms(3,4) upstream_yields_nonempty [OF assms(1,2)],
      where acks = "map snd bs"]
  by (simp add: multipartReader_Next_def)

lemma Next_error_first:
  "Next R s = (Inl err, s1) \<Longrightarrow> multipartReader_Next R get s = Some (Inl err, s1)"
  unfolding multipartReader_Next_def by (rule loop_err) simp_all

text \<open>
  A batch returned by \<^verbatim>\<open>Next\<close> is never empty, and the acknowledgement of a batch
  whose upstream acknowledgements are not nil returns nil whatever they return.
\<close>

lemma Next_batch_never_empty:
  assumes "multipartReader_Next R get s = Some (Inr (ps, as), s')"
  shows "ps \<noteq> []"
    and "\<exists>bs. ps = concat (map fst bs) \<and> as = map snd bs \<and>
            (\<forall>b \<in> set bs. \<not> isEmpty get (fst b))"
proof -
  have "batches_of get [] [] (Inr (ps, as))"
    using loop_result_batches [of R get "[]" "[]" s "(Inr (ps, as), s')"] assms
    by (simp add: multipartReader_Next_def)
  then show "ps \<noteq> []"
    and "\<exists>bs. ps = concat (map fst bs) \<and> as = map snd bs \<and>
            (\<forall>b \<in> set bs. \<not> isEmpty get (fst b))"
    by (simp_all add: batches_of_def)
qed

lemma ackFn_returns_nil:
  "fst (multipart_ackFn R (map Some as) err s) = None"
  by (induction as arbitrary: s) simp_all

lemmas lines_eval =
  lines_upstream_Next_Scanned lines_upstream_Next_end lines_upstream_Ack_state
  isEmpty_def new_reader_def partReader_ack_def ackOnce_def Let_def

text \<open>
  The codec \<^verbatim>\<open>lines/multipart\<close> on the lines \<open>a\<close>, \<open>b\<close>, an empty line, \<open>c\<close> and an
  empty line: the first batch is \<open>a\<close>, \<open>b\<close>.
\<close>

lemma demo_first_batch:
  "multipartReader_Next (lines_upstream fn) (\<lambda>p. p)
     ([Scanned ''a'', Scanned ''b'', Scanned [], Scanned ''c'', Scanned []], new_reader) =
   Some (Inr ([''a'', ''b''], [Some (), Some ()]),
         ([Scanned ''c'', Scanned []],
          \<lparr>once = False, finished = False, pending = 2, calls = []\<rparr>))"
proof -
  let ?R = "lines_upstream fn"
  have y: "upstream_yields ?R (\<lambda>p. p)
       ([Scanned ''a'', Scanned ''b'', Scanned [], Scanned ''c'', Scanned []], new_reader)
       [([''a''], Some ()), ([''b''], Some ())]
       ([Scanned [], Scanned ''c'', Scanned []],
        \<lparr>once = False, finished = False, pending = 2, calls = []\<rparr>)"
    by (simp add: lines_eval)
  have n: "Next ?R ([Scanned [], Scanned ''c'', Scanned []],
        \<lparr>once = False, finished = False, pending = 2, calls = []\<rparr>) =
      (Inr ([''''], Some ()), ([Scanned ''c'', Scanned []],
        \<lparr>once = False, finished = False, pending = 3, calls = []\<rparr>))"
    by (simp add: lines_eval)
  have e: "isEmpty (\<lambda>p. p) ['''']" by (simp add: isEmpty_def)
  show ?thesis
    using Next_batch_until_empty [OF y _ n e] by (simp add: lines_eval)
qed

text \<open>
  Claim C4 says that an empty upstream result is acknowledged at once with nil and never
  surfaces. The code does not do so for the empty result of \<^verbatim>\<open>chunkerReader.Next\<close>:
  when \<^verbatim>\<open>Read\<close> returns no byte and no error, as it does for the zero-length buffer of
  the codec \<^verbatim>\<open>chunker:0/multipart\<close>, \<^verbatim>\<open>chunkerReader.Next\<close> returns no part, a nil
  acknowledgement and no error; the result is empty, and \<^verbatim>\<open>multipartReader.Next\<close>
  calls the nil acknowledgement, which is a nil dereference.
\<close>

theorem multipart_empty_result_nil_ack_panics:
  "chunkerReader_Next (\<lambda>err. None) (ReadResult [] None) new_reader = (NextNil, new_reader) \<and>
   isEmpty (\<lambda>p. p) ([] :: string list) \<and>
   multipartReader_Next (chunker_upstream (\<lambda>err. None)) (\<lambda>p. p)
     ([ReadResult [] None], new_reader) = Some (Inl PanicNilDeref, ([], new_reader))"
proof -
  have nf: "\<not> finished new_reader" by (simp add: new_reader_def)
  have c: "chunkerReader_Next (\<lambda>err. None) (ReadResult [] None) new_reader
             = (NextNil, new_reader)"
    by (simp add: chunkerReader_Next_def new_reader_def)
  have e: "isEmpty (\<lambda>p. p) ([] :: string list)" by (simp add: isEmpty_def)
  have "multipartReader_Next (chunker_upstream (\<lambda>err. None)) (\<lambda>p. p)
     ([ReadResult [] None], new_reader) = Some (Inl PanicNilDeref, ([], new_reader))"
    by (rule Next_nil_ack_panics [OF chunker_upstream_Next_zero [OF nf] e])
  with c e show ?thesis by (intro conjI)
qed

text \<open>
  Claim C8 says that leading empty upstream results are consumed and acknowledged
  without producing a batch. Under the codec \<^verbatim>\<open>chunker:0/multipart\<close> every \<^verbatim>\<open>Read\<close>
  returns no byte and no error: \<^verbatim>\<open>multipartReader.Next\<close> stops with a nil dereference
  on the first of these empty results, which is not acknowledged (no acknowledgement is
  invoked and none is pending), and the following ones are not consumed.
\<close>

theorem multipart_leading_empty_results_panic:
  "multipartReader_Next (chunker_upstream (\<lambda>err. None)) (\<lambda>p. p)
     ([ReadResult [] None, ReadResult [] None], new_reader) =
   Some (Inl PanicNilDeref, ([ReadResult [] None], new_reader)) \<and>
   calls new_reader = [] \<and> pending new_reader = 0"
proof -
  have nf: "\<not> finished new_reader" by (simp add: new_reader_def)
  have e: "isEmpty (\<lambda>p. p) ([] :: string list)" by (simp add: isEmpty_def)
  have "multipartReader_Next (chunker_upstream (\<lambda>err. None)) (\<lambda>p. p)
     ([ReadResult [] None, ReadResult [] None], new_reader) =
   Some (Inl PanicNilDeref, ([ReadResult [] None], new_reader))"
    by (rule Next_nil_ack_panics [OF chunker_upstream_Next_zero [OF nf] e])
  then show ?thesis by (simp add: new_reader_def)
qed

subsection \<open>The claims on concrete lifetimes\<close>

lemmas run_eval =
  reader_run_def reader_step_def partReader_ack_def partReader_Close_def ackOnce_def
  new_reader_def Let_def

text \<open>
  The amended claim C1 on a \<^verbatim>\<open>lines\<close> reader whose only part is acknowledged after
  \<^verbatim>\<open>Close\<close>, on complete lifetimes of a \<^verbatim>\<open>csv\<close> and a \<^verbatim>\<open>tar\<close> reader, on a
  \<^verbatim>\<open>delim\<close> reader whose part is acknowledged with an error, on a \<^verbatim>\<open>chunker\<close>
  reader closed before the end of its source, and on the first batch of
  \<^verbatim>\<open>lines/multipart\<close>.
\<close>

theorem source_ack_invoked_once_witness:
  "length (calls (reader_run linesReader_Next (\<lambda>err. None)
      [CallNext (Scanned ''a''), CallNext (ScanStop None), CallClose, CallAck None]
      new_reader)) = 1 \<and>
   length (calls (reader_run (csvReader_Next [''h'']) (\<lambda>err. None)
      [CallNext (CsvRecord [''1'']), CallAck None, CallNext (CsvErr EOF), CallClose]
      new_reader)) = 1 \<and>
   length (calls (reader_run customDelimReader_Next (\<lambda>err. None)
      ([CallNext (Scanned ''a'')] @ CallAck (Some (ErrIO ''lost'')) # [CallClose])
      new_reader)) = 1 \<and>
   length (calls (reader_run chunkerReader_Next (\<lambda>err. None)
      ([CallNext (ReadResult ''ab'' None)] @ CallClose # [CallAck None]) new_reader)) = 1 \<and>
   length (calls (reader_run tarReader_Next (\<lambda>err. None)
      [CallNext (TarEntry ''a''), CallNext (TarEntry ''b''), CallAck None,
       CallNext (TarNextErr EOF), CallAck None, CallClose] new_reader)) = 1 \<and>
   multipartReader_Next (lines_upstream (\<lambda>err. None)) (\<lambda>p. p)
     ([Scanned ''a'', Scanned ''b'', Scanned [], Scanned ''c'', Scanned []], new_reader) =
   Some (Inr ([''a'', ''b''], [Some (), Some ()]),
         ([Scanned ''c'', Scanned []],
          \<lparr>once = False, finished = False, pending = 2, calls = []\<rparr>)) \<and>
   ack_inv \<lparr>once = False, finished = False, pending = 2, calls = []\<rparr>"
proof -
  let ?f = "\<lambda>err :: error option. None :: error option"
  let ?R = "lines_upstream ?f"
  let ?s0 = "([Scanned ''a'', Scanned ''b'', Scanned [], Scanned ''c'', Scanned []], new_reader)"
  let ?y = "(Inr ([''a'', ''b''], [Some (), Some ()]),
         ([Scanned ''c'', Scanned []],
          \<lparr>once = False, finished = False, pending = 2, calls = []\<rparr>))
       :: (error + string list \<times> unit option list) \<times> scan_result list \<times> reader_st"
  let ?c1 = "[CallNext (Scanned ''a''), CallNext (ScanStop None), CallClose, CallAck None]"
  let ?c2 = "[CallNext (CsvRecord [''1'']), CallAck None, CallNext (CsvErr EOF), CallClose]"
  let ?c3 = "[CallNext (Scanned ''a'')]"
  let ?c4 = "[CallNext (ReadResult ''ab'' None)]"
  let ?c5 = "[CallNext (TarEntry ''a''), CallNext (TarEntry ''b''), CallAck None,
       CallNext (TarNextErr EOF), CallAck None, CallClose]"
  note T = source_ack_invoked_once [where fn = ?f and e = "ErrIO ''lost''"
      and ?c1.0 = ?c1 and headers = "[''h'']" and ?c2.0 = ?c2
      and ?c3.0 = ?c3 and ?d3.0 = "[CallClose]"
      and ?c4.0 = ?c4 and ?d4.0 = "[CallAck None]"
      and ?c5.0 = ?c5
      and R = ?R and I = "\<lambda>(src, s). ack_inv s" and s = ?s0 and get = "\<lambda>p. p"]
  have h1: "lifetime_ok linesReader_Next ?f ?c1 new_reader 0 False"
    by (simp add: run_eval linesReader_Next_def)
  have h2: "lifetime_ok (csvReader_Next [''h'']) ?f ?c2 new_reader 0 False"
    by (simp add: run_eval csvReader_Next_def)
  have h4: "Close_fires chunkerReader_Next ?f ?c4"
    by (simp add: Close_fires_def run_eval chunkerReader_Next_def)
  have h5: "lifetime_ok tarReader_Next ?f ?c5 new_reader 0 False"
    by (simp add: run_eval tarReader_Next_def)
  have h6: "upstream_keeps ?R (\<lambda>(src, s). ack_inv s) \<and> (case ?s0 of (src, s) \<Rightarrow> ack_inv s)"
    by (simp add: lines_upstream_keeps ack_inv_new)
  have y: "multipartReader_Next ?R (\<lambda>p. p) ?s0 = Some ?y"
    by (rule demo_first_batch)
  have c1: "length (calls (reader_run linesReader_Next ?f ?c1 new_reader)) = 1"
    using T [THEN conjunct1, unfolded acks_source_once_def, THEN conjunct2, THEN conjunct1] h1
    by (rule mp)
  have c2: "length (calls (reader_run (csvReader_Next [''h'']) ?f ?c2 new_reader)) = 1"
    using T [THEN conjunct2, THEN conjunct1, unfolded acks_source_once_def,
        THEN conjunct2, THEN conjunct1] h2
    by (rule mp)
  have c3: "length (calls (reader_run customDelimReader_Next ?f
      (?c3 @ CallAck (Some (ErrIO ''lost'')) # [CallClose]) new_reader)) = 1"
    by (rule T [THEN conjunct2, THEN conjunct2, THEN conjunct1,
          unfolded acks_source_once_def, THEN conjunct2, THEN conjunct2, THEN conjunct1])
  have c4: "length (calls (reader_run chunkerReader_Next ?f
      (?c4 @ CallClose # [CallAck None]) new_reader)) = 1"
    using T [THEN conjunct2, THEN conjunct2, THEN conjunct2, THEN conjunct1,
        unfolded acks_source_once_def, THEN conjunct2, THEN conjunct2, THEN conjunct2] h4
    by (rule mp)
  have c5: "length (calls (reader_run tarReader_Next ?f ?c5 new_reader)) = 1"
    using T [THEN conjunct2, THEN conjunct2, THEN conjunct2, THEN conjunct2, THEN conjunct1,
        unfolded acks_source_once_def, THEN conjunct2, THEN conjunct1] h5
    by (rule mp)
  have "case snd ?y of (src, s) \<Rightarrow> ack_inv s"
    using T [THEN conjunct2, THEN conjunct2, THEN conjunct2, THEN conjunct2, THEN conjunct2,
        THEN mp, OF h6, THEN conjunct1, rule_format, OF y] .
  then have c6: "ack_inv \<lparr>once = False, finished = False, pending = 2, calls = []\<rparr>"
    by simp
  from c1 c2 c3 c4 c5 y c6 show ?thesis by (intro conjI)
qed

subsection \<open>The sum method on a number\<close>

lemma sum_loop_err_shape:
  "sum_loop g add t i tot err = (r, Some e) \<Longrightarrow>
     (\<forall>a v ks. err \<noteq> Some (TypeErrorFrom a v ks)) \<Longrightarrow> (\<forall>a v ks. e \<noteq> TypeErrorFrom a v ks)"
  by (induction g add t i tot err rule: sum_loop.induct) (auto split: sum.splits)

lemma sumMethod_numeric:
  "Exec target ctx = Inr v \<Longrightarrow> is_numeric (ISanitize v) \<Longrightarrow>
     sumMethod ISanitize IGetNumber fzero add target ctx = Inr v"
  by (cases "ISanitize v") (simp_all add: sumMethod_def)

lemma sumMethod_type_error_iff:
  assumes "Exec target ctx = Inr v"
  shows "sumMethod ISanitize IGetNumber fzero add target ctx =
           Inl (TypeErrorFrom (Annotation target) v [ValueArray]) \<longleftrightarrow>
         \<not> is_numeric (ISanitize v) \<and> \<not> is_array (ISanitize v)"
proof (cases "ISanitize v")
  case (VArray t)
  obtain tot err where l: "sum_loop IGetNumber add t 0 fzero None = (tot, err)"
    by (cases "sum_loop IGetNumber add t 0 fzero None")
  show ?thesis
  proof (cases err)
    case None
    with l VArray assms show ?thesis by (simp add: sumMethod_def)
  next
    case (Some e)
    with l have "\<forall>a v ks. e \<noteq> TypeErrorFrom a v ks"
      using sum_loop_err_shape [of IGetNumber add t 0 fzero None tot e] by simp
    with l VArray assms Some show ?thesis by (simp add: sumMethod_def)
  qed
qed (simp_all add: sumMethod_def assms)

text \<open>
  Claim C9. When the target of \<^verbatim>\<open>sum()\<close> evaluates to a value that sanitises to a
  single number (float, signed integer, unsigned integer or \<^verbatim>\<open>json.Number\<close>), the
  method returns that value unchanged; and the type error that names array as the
  expected kind is returned exactly when the sanitised value is neither a number nor an
  array.
\<close>

theorem sum_of_a_number:
  "(Exec target ctx = Inr v \<and> is_numeric (ISanitize v) \<longrightarrow>
      sumMethod ISanitize IGetNumber fzero add target ctx = Inr v) \<and>
   (Exec target ctx = Inr v \<longrightarrow>
      (sumMethod ISanitize IGetNumber fzero add target ctx =
         Inl (TypeErrorFrom (Annotation target) v [ValueArray]) \<longleftrightarrow>
       \<not> is_numeric (ISanitize v) \<and> \<not> is_array (ISanitize v)))"
  using sumMethod_numeric [of target ctx v ISanitize IGetNumber fzero add]
    sumMethod_type_error_iff [of target ctx v ISanitize IGetNumber fzero add]
  by blast

text \<open>
  Claim C9 on a signed integer, a \<^verbatim>\<open>json.Number\<close> and a string; the last line sums
  an array.
\<close>

theorem sum_of_a_number_witness:
  "sumMethod (\<lambda>v. v) demo_IGetNumber 0 (+) \<lparr>Exec = \<lambda>ctx. Inr (VInt 5), Annotation = ''field a''\<rparr> ()
     = Inr (VInt 5) \<and>
   sumMethod (\<lambda>v. v) demo_IGetNumber 0 (+) \<lparr>Exec = \<lambda>ctx. Inr (VNumber ''5''), Annotation = ''field a''\<rparr> ()
     = Inr (VNumber ''5'') \<and>
   sumMethod (\<lambda>v. v) demo_IGetNumber 0 (+) \<lparr>Exec = \<lambda>ctx. Inr (VString ''5''), Annotation = ''field a''\<rparr> ()
     = Inl (TypeErrorFrom ''field a'' (VString ''5'') [ValueArray]) \<and>
   sumMethod (\<lambda>v. v) demo_IGetNumber 0 (+)
       \<lparr>Exec = \<lambda>ctx. Inr (VArray [VInt 3, VInt 8, VFloat 4]), Annotation = ''field a''\<rparr> ()
     = Inr (VFloat 15)"
proof -
  let ?S = "sumMethod (\<lambda>v. v) demo_IGetNumber 0 (+)"
  let ?t = "\<lambda>v. \<lparr>Exec = \<lambda>ctx :: unit. Inr v, Annotation = ''field a''\<rparr> :: (unit, int) Function"
  note T = sum_of_a_number [where ISanitize = "\<lambda>v. v" and IGetNumber = demo_IGetNumber
      and fzero = 0 and add = "(+)" and ctx = "()"]
  have c1: "?S (?t (VInt 5)) () = Inr (VInt 5)"
    by (rule T [where target = "?t (VInt 5)" and v = "VInt 5", THEN conjunct1, THEN mp]) simp
  have c2: "?S (?t (VNumber ''5'')) () = Inr (VNumber ''5'')"
    by (rule T [where target = "?t (VNumber ''5'')" and v = "VNumber ''5''", THEN conjunct1,
          THEN mp]) simp
  have "?S (?t (VString ''5'')) () =
        Inl (TypeErrorFrom (Annotation (?t (VString ''5''))) (VString ''5'') [ValueArray])"
    by (rule T [where target = "?t (VString ''5'')" and v = "VString ''5''", THEN conjunct2,
          THEN mp, THEN iffD2]) simp_all
  then have c3: "?S (?t (VString ''5'')) () =
        Inl (TypeErrorFrom ''field a'' (VString ''5'') [ValueArray])" by simp
  have c4: "?S (?t (VArray [VInt 3, VInt 8, VFloat 4])) () = Inr (VFloat 15)"
    by (simp add: sumMethod_def demo_IGetNumber_def)
  from c1 c2 c3 c4 show ?thesis by (intro conjI)
qed

subsection \<open>Cloning a function set\<close>

text \<open>The expression on names of the test \<^verbatim>\<open>TestMethodBadName\<close>.\<close>

lemma nameRegexp_on_test_names:
  "nameRegexp_MatchString ''foo_bar_baz'' \<and> \<not> nameRegexp_MatchString ''foo__bar'' \<and> \<not> nameRegexp_MatchString '''' \<and> \<not> nameRegexp_MatchString ''FOO'' \<and> nameRegexp_MatchString ''fo1_ba2_ba3'' \<and> \<not> nameRegexp_MatchString ''foo-bar-''"
  by (simp add: nameRegexp_MatchString_def is_lower_alnum_def)

lemma fold_update_map_of:
  "distinct (map fst xs) \<Longrightarrow>
     map_of (fold (\<lambda>(k, v) m. if k \<in> X then m else AList.update k v m) xs acc) k =
       (if k \<in> X then map_of acc k
        else case map_of xs k of Some v \<Rightarrow> Some v | None \<Rightarrow> map_of acc k)"
proof (induction xs arbitrary: acc)
  case Nil
  then show ?case by simp
next
  case (Cons x xs)
  obtain k' v' where x: "x = (k', v')" by (cases x)
  from Cons.prems have d: "distinct (map fst xs)" and nk: "k' \<notin> fst ` set xs"
    by (simp_all add: x)
  from nk have none: "map_of xs k' = None" by (simp add: map_of_eq_None_iff)
  show ?case
    using Cons.IH [OF d] none
    by (auto simp: x update_conv' split: option.splits)
qed

lemma fold_update_names:
  assumes "\<forall>(k, v) \<in> set xs. Name v = k"
  shows "fold (\<lambda>(k, v) m. if Name v \<in> X then m else AList.update (Name v) v m) xs acc =
         fold (\<lambda>(k, v) m. if k \<in> X then m else AList.update k v m) xs acc"
  using assms by (induction xs arbitrary: acc) auto

lemma fold_update_distinct:
  "distinct (map fst acc) \<Longrightarrow>
     distinct (map fst (fold (\<lambda>(k, v) m. if k \<in> X then m else AList.update k v m) xs acc))"
  by (induction xs arbitrary: acc) (auto simp: distinct_update)

lemma set_update_cases:
  "(a, b) \<in> set (AList.update k v al) \<Longrightarrow> (a, b) = (k, v) \<or> (a, b) \<in> set al"
  by (induction al) (auto split: if_splits)

lemma fold_update_values:
  "\<forall>(k, v) \<in> set xs. Name v = k \<Longrightarrow> \<forall>(k, v) \<in> set acc. Name v = k \<Longrightarrow>
     \<forall>(k, v) \<in> set (fold (\<lambda>(k, v) m. if k \<in> X then m else AList.update k v m) xs acc).
        Name v = k"
proof (induction xs arbitrary: acc)
  case Nil
  then show ?case by simp
next
  case (Cons x xs)
  obtain k' v' where x: "x = (k', v')" by (cases x)
  have "\<forall>(k, v) \<in> set (AList.update k' v' acc). Name v = k"
    using Cons.prems by (auto simp: x dest!: set_update_cases)
  with Cons show ?case by (auto simp: x)
qed

lemma Without_maps:
  assumes "wf_FunctionSet h f" and "Without f N h = (g, h')"
  shows "map_of (ctor_maps h' (constructors g)) =
           (\<lambda>k. if k \<in> set N then None else map_of (ctor_maps h (constructors f)) k)"
    and "map_of (spec_maps h' (specs g)) =
           (\<lambda>k. if k \<in> set N then None else map_of (spec_maps h (specs f)) k)"
proof -
  from assms(1) have dc: "distinct (map fst (ctor_maps h (constructors f)))"
    and ds: "distinct (map fst (spec_maps h (specs f)))"
    and nm: "\<forall>(k, v) \<in> set (spec_maps h (specs f)). Name v = k"
    by (simp_all add: wf_FunctionSet_def)
  from assms(2) have g: "constructors g = next_map h" "specs g = next_map h"
    and c: "ctor_maps h' (next_map h) =
        fold (\<lambda>(k, v) m. if k \<in> set N then m else AList.update k v m)
             (ctor_maps h (constructors f)) []"
    and s: "spec_maps h' (next_map h) =
        fold (\<lambda>(k, v) m. if Name v \<in> set N then m else AList.update (Name v) v m)
             (spec_maps h (specs f)) []"
    by (auto simp: Without_def Let_def)
  show "map_of (ctor_maps h' (constructors g)) =
           (\<lambda>k. if k \<in> set N then None else map_of (ctor_maps h (constructors f)) k)"
    by (rule ext) (simp add: g c fold_update_map_of [OF dc] split: option.splits)
  show "map_of (spec_maps h' (specs g)) =
           (\<lambda>k. if k \<in> set N then None else map_of (spec_maps h (specs f)) k)"
    by (rule ext)
       (simp add: g s fold_update_names [OF nm] fold_update_map_of [OF ds] split: option.splits)
qed

lemma Without_frame:
  assumes "Without f N h = (g, h')"
  shows "next_map h' = next_map h + 1" and "constructors g = next_map h"
    and "specs g = next_map h"
    and "\<forall>a < next_map h. ctor_maps h' a = ctor_maps h a \<and> spec_maps h' a = spec_maps h a"
  using assms by (auto simp: Without_def Let_def)

lemma Without_wf:
  assumes "wf_FunctionSet h f" and "Without f N h = (g, h')"
  shows "wf_FunctionSet h' g" and "wf_FunctionSet h' f"
proof -
  from assms(1) have nm: "\<forall>(k, v) \<in> set (spec_maps h (specs f)). Name v = k"
    by (simp add: wf_FunctionSet_def)
  from assms(2) have g: "constructors g = next_map h" "specs g = next_map h"
    "next_map h' = next_map h + 1"
    and c: "ctor_maps h' (next_map h) =
        fold (\<lambda>(k, v) m. if k \<in> set N then m else AList.update k v m)
             (ctor_maps h (constructors f)) []"
    and s: "spec_maps h' (next_map h) =
        fold (\<lambda>(k, v) m. if Name v \<in> set N then m else AList.update (Name v) v m)
             (spec_maps h (specs f)) []"
    by (auto simp: Without_def Let_def)
  have "\<forall>(k, v) \<in> set (spec_maps h' (next_map h)). Name v = k"
    unfolding s fold_update_names [OF nm] by (rule fold_update_values [OF nm]) simp
  then show "wf_FunctionSet h' g"
    by (simp add: wf_FunctionSet_def g c s fold_update_names [OF nm] fold_update_distinct)
  from Without_frame(4) [OF assms(2)] assms(1) g(3) show "wf_FunctionSet h' f"
    by (simp add: wf_FunctionSet_def)
qed

lemma NewFunctionSet_wf:
  "NewFunctionSet h = (f, h') \<Longrightarrow> wf_FunctionSet h' f"
  by (auto simp: NewFunctionSet_def wf_FunctionSet_def)

lemma Add_wf:
  assumes "wf_FunctionSet h f" and "Add validate f spec ctor h = (r, h')"
  shows "wf_FunctionSet h' f"
proof (cases "r = None")
  case False
  with assms(2) have "h' = h"
    by (auto simp: Add_def Let_def split: if_splits option.splits)
  with assms(1) show ?thesis by simp
next
  case True
  with assms(2) have h': "h' = h\<lparr>ctor_maps := (ctor_maps h)
        (constructors f := AList.update (Name spec) ctor (ctor_maps h (constructors f))),
      spec_maps := (spec_maps h)
        (specs f := AList.update (Name spec) spec (spec_maps h (specs f)))\<rparr>"
    by (auto simp: Add_def Let_def split: if_splits option.splits)
  have "\<forall>(k, v) \<in> set (AList.update (Name spec) spec (spec_maps h (specs f))). Name v = k"
    using assms(1) by (auto simp: wf_FunctionSet_def dest!: set_update_cases)
  with assms(1) show ?thesis
    by (simp add: h' wf_FunctionSet_def distinct_update)
qed

lemma Init_cong:
  "map_of (ctor_maps h' (constructors g)) n = map_of (ctor_maps h (constructors f)) n \<Longrightarrow>
     Init dynamic closure h' g n args = Init dynamic closure h f n args"
  by (simp add: Init_def)

text \<open>
  Claim C7. For every function set \<open>f\<close> of the store and every list of names \<open>N\<close>,
  \<^verbatim>\<open>Without\<close> returns a set \<open>g\<close> whose two maps are new and hold exactly the entries
  of \<open>f\<close> whose names are not in \<open>N\<close>; every map that existed before the call, those
  of \<open>f\<close> among them, is as it was. After the call \<^verbatim>\<open>Init\<close> of a name of \<open>N\<close> on
  \<open>g\<close> fails with the error of an unknown name, \<^verbatim>\<open>Init\<close> of any other name on \<open>g\<close>
  does what it did on \<open>f\<close>, and \<^verbatim>\<open>Init\<close> on \<open>f\<close> does what it did before.
\<close>

theorem Without_clones:
  "wf_FunctionSet h f \<and> Without f N h = (g, h') \<longrightarrow>
     map_of (ctor_maps h' (constructors g)) =
       (\<lambda>k. if k \<in> set N then None else map_of (ctor_maps h (constructors f)) k) \<and>
     map_of (spec_maps h' (specs g)) =
       (\<lambda>k. if k \<in> set N then None else map_of (spec_maps h (specs f)) k) \<and>
     constructors g = next_map h \<and> specs g = next_map h \<and>
     (\<forall>a < next_map h. ctor_maps h' a = ctor_maps h a \<and> spec_maps h' a = spec_maps h a) \<and>
     (n \<in> set N \<longrightarrow> Init dynamic closure h' g n args = Inl (ErrBadFunction n)) \<and>
     (n \<notin> set N \<longrightarrow> Init dynamic closure h' g n args = Init dynamic closure h f n args) \<and>
     Init dynamic closure h' f n args = Init dynamic closure h f n args"
proof (intro impI)
  assume a: "wf_FunctionSet h f \<and> Without f N h = (g, h')"
  then have wf: "wf_FunctionSet h f" and w: "Without f N h = (g, h')" by simp_all
  note m = Without_maps [OF wf w] and fr = Without_frame [OF w]
  from wf have lt: "constructors f < next_map h" by (simp add: wf_FunctionSet_def)
  have same: "ctor_maps h' (constructors f) = ctor_maps h (constructors f)"
    using fr(4) lt by simp
  have i1: "n \<in> set N \<longrightarrow> Init dynamic closure h' g n args = Inl (ErrBadFunction n)"
    by (simp add: Init_def m(1))
  have i2: "n \<notin> set N \<longrightarrow> Init dynamic closure h' g n args = Init dynamic closure h f n args"
    by (simp add: Init_def m(1))
  have i3: "Init dynamic closure h' f n args = Init dynamic closure h f n args"
    by (simp add: Init_def same)
  from m fr(2,3,4) i1 i2 i3 show "map_of (ctor_maps h' (constructors g)) =
       (\<lambda>k. if k \<in> set N then None else map_of (ctor_maps h (constructors f)) k) \<and>
     map_of (spec_maps h' (specs g)) =
       (\<lambda>k. if k \<in> set N then None else map_of (spec_maps h (specs f)) k) \<and>
     constructors g = next_map h \<and> specs g = next_map h \<and>
     (\<forall>a < next_map h. ctor_maps h' a = ctor_maps h a \<and> spec_maps h' a = spec_maps h a) \<and>
     (n \<in> set N \<longrightarrow> Init dynamic closure h' g n args = Inl (ErrBadFunction n)) \<and>
     (n \<notin> set N \<longrightarrow> Init dynamic closure h' g n args = Init dynamic closure h f n args) \<and>
     Init dynamic closure h' f n args = Init dynamic closure h f n args"
    by (intro conjI)
qed

lemma demo_store_eval:
  "demo_set = \<lparr>constructors = 0, specs = 0\<rparr>"
  "next_map demo_store = 1"
  "ctor_maps demo_store 0 = [(''explode'', \<lambda>args. Inr ''explode''), (''map_each'', \<lambda>args. Inr ''map_each'')]"
  "spec_maps demo_store 0 = [(''explode'', demo_spec ''explode''), (''map_each'', demo_spec ''map_each'')]"
  by (simp_all add: demo_store_def demo_set_def empty_store_def NewFunctionSet_def Add_def Let_def
        nameRegexp_MatchString_def is_lower_alnum_def demo_spec_def)

lemma demo_store_wf: "wf_FunctionSet demo_store demo_set"
  by (simp add: wf_FunctionSet_def demo_store_eval) (simp add: demo_spec_def)

text \<open>
  Claim C7 on the set of the test: after \<open>Without("explode")\<close>, \<^verbatim>\<open>Init\<close> of
  \<open>explode\<close> fails on the clone and succeeds on the original, \<^verbatim>\<open>Init\<close> of \<open>map_each\<close>
  succeeds on the clone; the last two lines list the names of the clone and of the
  original.
\<close>

theorem Without_clones_witness:
  "Init (\<lambda>args. []) (\<lambda>name args ctor. name) (snd (Without demo_set [''explode''] demo_store))
     (fst (Without demo_set [''explode''] demo_store)) ''explode'' ()
     = Inl (ErrBadFunction ''explode'') \<and>
   Init (\<lambda>args. []) (\<lambda>name args ctor. name) (snd (Without demo_set [''explode''] demo_store))
     demo_set ''explode'' () = Inr ''explode'' \<and>
   Init (\<lambda>args. []) (\<lambda>name args ctor. name) (snd (Without demo_set [''explode''] demo_store))
     (fst (Without demo_set [''explode''] demo_store)) ''map_each'' () = Inr ''map_each'' \<and>
   map fst (ctor_maps (snd (Without demo_set [''explode''] demo_store))
              (constructors (fst (Without demo_set [''explode''] demo_store)))) = [''map_each''] \<and>
   map fst (ctor_maps (snd (Without demo_set [''explode''] demo_store)) (constructors demo_set))
     = [''explode'', ''map_each'']"
proof -
  let ?W = "Without demo_set [''explode''] demo_store"
  let ?I = "Init (\<lambda>args :: unit. [] :: string list)
              (\<lambda>name (args :: unit) (ctor :: unit \<Rightarrow> reg_error + string). name)"
  have h: "wf_FunctionSet demo_store demo_set \<and> ?W = (fst ?W, snd ?W)"
    by (simp add: demo_store_wf)
  note T = Without_clones [where h = demo_store and f = demo_set and N = "[''explode'']"
      and g = "fst ?W" and h' = "snd ?W" and dynamic = "\<lambda>args. []"
      and closure = "\<lambda>name args ctor. name" and args = "()"]
  note Te = T [where n = "''explode''", THEN mp, OF h, THEN conjunct2, THEN conjunct2,
      THEN conjunct2, THEN conjunct2, THEN conjunct2]
  note Tm = T [where n = "''map_each''", THEN mp, OF h, THEN conjunct2, THEN conjunct2,
      THEN conjunct2, THEN conjunct2, THEN conjunct2]
  have orig: "?I demo_store demo_set ''explode'' () = Inr ''explode''"
    "?I demo_store demo_set ''map_each'' () = Inr ''map_each''"
    by (simp_all add: Init_def demo_store_eval wrapCtorWithDynamicArgs_def)
  have c1: "?I (snd ?W) (fst ?W) ''explode'' () = Inl (ErrBadFunction ''explode'')"
    by (rule Te [THEN conjunct1, THEN mp]) simp
  have c2: "?I (snd ?W) demo_set ''explode'' () = Inr ''explode''"
    using Te [THEN conjunct2, THEN conjunct2] orig(1) by simp
  have "?I (snd ?W) (fst ?W) ''map_each'' () = ?I demo_store demo_set ''map_each'' ()"
    by (rule Tm [THEN conjunct2, THEN conjunct1, THEN mp]) simp
  with orig(2) have c3: "?I (snd ?W) (fst ?W) ''map_each'' () = Inr ''map_each''" by simp
  have c4: "map fst (ctor_maps (snd ?W) (constructors (fst ?W))) = [''map_each'']"
    by (simp add: Without_def Let_def demo_store_eval)
  have c5: "map fst (ctor_maps (snd ?W) (constructors demo_set)) = [''explode'', ''map_each'']"
    by (simp add: Without_def Let_def demo_store_eval)
  from c1 c2 c3 c4 c5 show ?thesis by (intro conjI)
qed

subsection \<open>Arithmetic on numbers\<close>

lemmas arith_eval =
  arithmetic_def numberDegradationFunc_def type_mismatch_def divide_by_zero_def
  demo_env_def parse_number_def demo_parse_int_def
  int64_quo_def int64_rem_def signed_divide_int_def signed_modulo_int_def

text \<open>
  The model of \<^verbatim>\<open>numberDegradationFunc\<close> on the rows of the test
  \<^verbatim>\<open>TestArithmeticNumberDegradation\<close> that the environment can run (the test passes
  the two divisions and the operator \<^verbatim>\<open>ArithmeticAdd\<close>; \<^verbatim>\<open>uint32(3)\<close> and
  \<^verbatim>\<open>int32(12)\<close> are given as the 64-bit values they sanitise to).
\<close>

lemma numberDegradation_test_rows:
  "numberDegradationFunc demo_env ArithmeticAdd
     (\<lambda>a b. Inr (int64_quo a b)) (\<lambda>x y. Inr (x / y)) (''left'', VInt 12) (''right'', VUint 3)
     = Inr (VInt 4)"
  "numberDegradationFunc demo_env ArithmeticAdd
     (\<lambda>a b. Inr (int64_quo a b)) (\<lambda>x y. Inr (x / y))
     (''left'', VFloat 8) (''right'', VFloat (32 / 10)) = Inr (VFloat (5 / 2))"
  "numberDegradationFunc demo_env ArithmeticAdd
     (\<lambda>a b. Inr (int64_quo a b)) (\<lambda>x y. Inr (x / y)) (''left'', VFloat 12) (''right'', VUint 3)
     = Inr (VFloat 4)"
  "numberDegradationFunc demo_env ArithmeticAdd
     (\<lambda>a b. Inr (int64_quo a b)) (\<lambda>x y. Inr (x / y)) (''left'', VInt 12) (''right'', VFloat 3)
     = Inr (VFloat 4)"
  "numberDegradationFunc demo_env ArithmeticAdd
     (\<lambda>a b. Inr (int64_quo a b)) (\<lambda>x y. Inr (x / y))
     (''left'', VNumber ''12'') (''right'', VNumber ''3'') = Inr (VInt 4)"
  "numberDegradationFunc demo_env ArithmeticAdd
     (\<lambda>a b. Inr (int64_quo a b)) (\<lambda>x y. Inr (x / y))
     (''left'', VString ''not a number'') (''right'', VInt 3)
     = Inl ''cannot add types string (from left) and number (from right)''"
  "numberDegradationFunc demo_env ArithmeticAdd
     (\<lambda>a b. Inr (int64_quo a b)) (\<lambda>x y. Inr (x / y))
     (''left'', VInt 3) (''right'', VString ''not a number'')
     = Inl ''cannot add types number (from left) and string (from right)''"
  "numberDegradationFunc demo_env ArithmeticAdd
     (\<lambda>a b. Inr (int64_quo a b)) (\<lambda>x y. Inr (x / y))
     (''left'', VString ''not a number'') (''right'', VFloat 3)
     = Inl ''cannot add types string (from left) and number (from right)''"
  "numberDegradationFunc demo_env ArithmeticAdd
     (\<lambda>a b. Inr (int64_quo a b)) (\<lambda>x y. Inr (x / y))
     (''left'', VFloat 3) (''right'', VString ''not a number'')
     = Inl ''cannot add types number (from left) and string (from right)''"
  by (simp_all add: arith_eval)


text \<open>
  Claim C2, as stated, fails on the case "dont divide by zero 2" of the test
  \<^verbatim>\<open>TestArithmetic\<close>: the left operand is annotated \<open>left thing\<close>, the right one
  \<open>foobar\<close>, and the error is \<open>foobar: attempted to divide by zero\<close>, not the message
  with the left annotation.
\<close>

theorem divide_by_zero_annotation_counterexample:
  "arithmetic demo_env ArithmeticMod (''left thing'', VInt 5) (''foobar'', VInt 0) =
     Inl ''foobar: attempted to divide by zero'' \<and>
   spec_divide_by_zero (''left thing'', VInt 5) (''foobar'', VInt 0 :: rat val) =
     ''left thing: attempted to divide by zero'' \<and>
   arithmetic demo_env ArithmeticMod (''left thing'', VInt 5) (''foobar'', VInt 0) \<noteq>
     Inl (spec_divide_by_zero (''left thing'', VInt 5) (''foobar'', VInt 0 :: rat val))"
  by (simp add: arith_eval spec_divide_by_zero_def)

lemma to_float_zero:
  "is_zero E y \<Longrightarrow> of_int64 E 0 = float_zero E \<Longrightarrow> to_float E y = float_zero E"
  by (cases y) simp_all

text \<open>
  Claim C2, amended. For the operators \<open>/\<close> and \<open>%\<close>, whenever both operands are
  numbers and the right one is zero, the operation fails with the message
  \<^verbatim>\<open><rannotation>: attempted to divide by zero\<close>, where \<^verbatim>\<open><rannotation>\<close> is the
  annotation of the right operand function (in an environment whose conversion of the
  integer 0 is the float zero).
\<close>

theorem divide_by_zero_names_divisor:
  "(op = ArithmeticDiv \<or> op = ArithmeticMod) \<and>
   coerce_num E (snd l) = Some x \<and> coerce_num E (snd r) = Some y \<and> is_zero E y \<and>
   of_int64 E 0 = float_zero E \<longrightarrow>
     arithmetic E op l r = Inl (fst r @ '': attempted to divide by zero'')"
proof (intro impI)
  assume a: "(op = ArithmeticDiv \<or> op = ArithmeticMod) \<and>
   coerce_num E (snd l) = Some x \<and> coerce_num E (snd r) = Some y \<and> is_zero E y \<and>
   of_int64 E 0 = float_zero E"
  then have z: "to_float E y = float_zero E" by (simp add: to_float_zero)
  from a have op: "op = ArithmeticDiv \<or> op = ArithmeticMod"
    and cl: "coerce_num E (snd l) = Some x" and cr: "coerce_num E (snd r) = Some y"
    and zy: "is_zero E y" by simp_all
  show "arithmetic E op l r = Inl (fst r @ '': attempted to divide by zero'')"
  proof (cases x)
    case (NInt a')
    show ?thesis
    proof (cases y)
      case (NInt b')
      with zy \<open>x = NInt a'\<close> op cl cr show ?thesis
        by (auto simp: arithmetic_def numberDegradationFunc_def divide_by_zero_def)
    next
      case (NFloat f)
      with zy z \<open>x = NInt a'\<close> op cl cr show ?thesis
        by (auto simp: arithmetic_def numberDegradationFunc_def divide_by_zero_def)
    qed
  next
    case (NFloat f')
    with z op cl cr show ?thesis
      by (cases y) (auto simp: arithmetic_def numberDegradationFunc_def divide_by_zero_def)
  qed
qed

text \<open>
  The amended claim C2 on 5 / 0 and 5 % 0 with the right operand annotated \<open>foobar\<close>,
  on integers and on floats.
\<close>

theorem divide_by_zero_names_divisor_witness:
  "arithmetic demo_env ArithmeticDiv (''left thing'', VInt 5) (''foobar'', VInt 0) =
     Inl ''foobar: attempted to divide by zero'' \<and>
   arithmetic demo_env ArithmeticMod (''left thing'', VInt 5) (''foobar'', VInt 0) =
     Inl ''foobar: attempted to divide by zero'' \<and>
   arithmetic demo_env ArithmeticDiv (''left thing'', VFloat 5) (''foobar'', VFloat 0) =
     Inl ''foobar: attempted to divide by zero''"
proof -
  have c1: "arithmetic demo_env ArithmeticDiv (''left thing'', VInt 5) (''foobar'', VInt 0) =
     Inl (fst (''foobar'', VInt 0 :: rat val) @ '': attempted to divide by zero'')"
    by (rule divide_by_zero_names_divisor [where E = demo_env and op = ArithmeticDiv
          and x = "NInt 5" and y = "NInt 0", THEN mp])
       (simp add: demo_env_def)
  have c2: "arithmetic demo_env ArithmeticMod (''left thing'', VInt 5) (''foobar'', VInt 0) =
     Inl (fst (''foobar'', VInt 0 :: rat val) @ '': attempted to divide by zero'')"
    by (rule divide_by_zero_names_divisor [where E = demo_env and op = ArithmeticMod
          and x = "NInt 5" and y = "NInt 0", THEN mp])
       (simp add: demo_env_def)
  have c3: "arithmetic demo_env ArithmeticDiv (''left thing'', VFloat 5) (''foobar'', VFloat 0) =
     Inl (fst (''foobar'', VFloat 0 :: rat val) @ '': attempted to divide by zero'')"
    by (rule divide_by_zero_names_divisor [where E = demo_env and op = ArithmeticDiv
          and x = "NFloat 5" and y = "NFloat 0", THEN mp])
       (simp add: demo_env_def)
  from c1 c2 c3 show ?thesis by simp
qed

lemma degrade_ints:
  "coerce_num E (snd l) = Some (NInt a) \<Longrightarrow> coerce_num E (snd r) = Some (NInt b) \<Longrightarrow>
     numberDegradationFunc E op intFn floatFn l r =
       (case intFn a b of Inl err \<Rightarrow> Inl err | Inr i \<Rightarrow> Inr (VInt i))"
  by (simp add: numberDegradationFunc_def)

lemma degrade_floats:
  "coerce_num E (snd l) = Some x \<Longrightarrow> coerce_num E (snd r) = Some y \<Longrightarrow>
   is_float x \<or> is_float y \<Longrightarrow>
     numberDegradationFunc E op intFn floatFn l r =
       (case floatFn (to_float E x) (to_float E y) of
          Inl err \<Rightarrow> Inl err | Inr f \<Rightarrow> Inr (VFloat f))"
  by (cases x; cases y) (simp_all add: numberDegradationFunc_def)

lemma add_not_strings:
  "\<not> is_string (snd l) \<Longrightarrow> \<not> is_string (snd r) \<Longrightarrow>
     arithmetic E ArithmeticAdd l r =
       numberDegradationFunc E ArithmeticAdd
         (\<lambda>a b. Inr (a + b)) (\<lambda>x y. Inr (float_add E x y)) l r"
  by (cases "snd l"; cases "snd r") (simp_all add: arithmetic_def)

lemma add_string_left:
  "is_string (snd l) \<Longrightarrow> \<not> is_string (snd r) \<Longrightarrow>
     arithmetic E ArithmeticAdd l r = Inl (type_mismatch E ArithmeticAdd l r)"
  by (cases "snd l"; cases "snd r") (simp_all add: arithmetic_def)

lemma add_string_right:
  "\<not> is_string (snd l) \<Longrightarrow> is_string (snd r) \<Longrightarrow>
     arithmetic E ArithmeticAdd l r = Inl (type_mismatch E ArithmeticAdd l r)"
  by (cases "snd l"; cases "snd r") (simp_all add: arithmetic_def)

lemma number_not_string: "kind_name v = ''number'' \<Longrightarrow> \<not> is_string v"
  by (cases v) simp_all

lemma string_kind: "is_string v \<Longrightarrow> kind_name v = ''string''"
  by (cases v) simp_all

text \<open>
  Claim C6. For the operators \<open>+\<close>, \<open>-\<close>, \<open>*\<close> and \<open>%\<close>: when both operands coerce
  to integers the result is the integer computed on 64-bit words (for \<open>+\<close>, of operands
  that are not strings; for \<open>%\<close>, with a divisor that is not zero); when both coerce to
  numbers and one is a float, the result is the float computed on both as floats; and
  \<open>+\<close> on a string and a number fails with
  \<^verbatim>\<open>cannot add types string (from <l>) and number (from <r>)\<close>, and the other way round,
  \<open><l>\<close> and \<open><r>\<close> being the annotations of the operands.
\<close>

theorem number_degradation:
  "(coerce_num E (snd l) = Some (NInt a) \<and> coerce_num E (snd r) = Some (NInt b) \<longrightarrow>
      (\<not> is_string (snd l) \<and> \<not> is_string (snd r) \<longrightarrow>
         arithmetic E ArithmeticAdd l r = Inr (VInt (a + b))) \<and>
      arithmetic E ArithmeticSub l r = Inr (VInt (a - b)) \<and>
      arithmetic E ArithmeticMul l r = Inr (VInt (a * b)) \<and>
      (b \<noteq> 0 \<longrightarrow> arithmetic E ArithmeticMod l r = Inr (VInt (int64_rem a b)))) \<and>
   (coerce_num E (snd l) = Some x \<and> coerce_num E (snd r) = Some y \<and>
    (is_float x \<or> is_float y) \<longrightarrow>
      (\<not> is_string (snd l) \<and> \<not> is_string (snd r) \<longrightarrow>
         arithmetic E ArithmeticAdd l r =
           Inr (VFloat (float_add E (to_float E x) (to_float E y)))) \<and>
      arithmetic E ArithmeticSub l r =
        Inr (VFloat (float_sub E (to_float E x) (to_float E y))) \<and>
      arithmetic E ArithmeticMul l r =
        Inr (VFloat (float_mul E (to_float E x) (to_float E y))) \<and>
      (to_float E y \<noteq> float_zero E \<longrightarrow>
         arithmetic E ArithmeticMod l r =
           Inr (VFloat (float_mod E (to_float E x) (to_float E y))))) \<and>
   (op_String E ArithmeticAdd = ''add'' \<and> is_string (snd l) \<and>
    kind_name (snd r) = ''number'' \<longrightarrow>
      arithmetic E ArithmeticAdd l r =
        Inl (''cannot add types string (from '' @ fst l @ '') and number (from '' @ fst r @
             '')'')) \<and>
   (op_String E ArithmeticAdd = ''add'' \<and> kind_name (snd l) = ''number'' \<and>
    is_string (snd r) \<longrightarrow>
      arithmetic E ArithmeticAdd l r =
        Inl (''cannot add types number (from '' @ fst l @ '') and string (from '' @ fst r @
             '')''))"
proof (intro conjI impI)
  assume "coerce_num E (snd l) = Some (NInt a) \<and> coerce_num E (snd r) = Some (NInt b)"
  then have c: "coerce_num E (snd l) = Some (NInt a)" "coerce_num E (snd r) = Some (NInt b)"
    by simp_all
  show "arithmetic E ArithmeticSub l r = Inr (VInt (a - b))"
    and "arithmetic E ArithmeticMul l r = Inr (VInt (a * b))"
    by (simp_all add: arithmetic_def degrade_ints [OF c])
  {
    assume "b \<noteq> 0"
    then show "arithmetic E ArithmeticMod l r = Inr (VInt (int64_rem a b))"
      by (simp add: arithmetic_def degrade_ints [OF c])
  }
  assume "\<not> is_string (snd l) \<and> \<not> is_string (snd r)"
  then show "arithmetic E ArithmeticAdd l r = Inr (VInt (a + b))"
    by (simp add: add_not_strings degrade_ints [OF c])
next
  assume "coerce_num E (snd l) = Some x \<and> coerce_num E (snd r) = Some y \<and>
    (is_float x \<or> is_float y)"
  then have c: "coerce_num E (snd l) = Some x" "coerce_num E (snd r) = Some y"
    "is_float x \<or> is_float y" by simp_all
  show "arithmetic E ArithmeticSub l r =
        Inr (VFloat (float_sub E (to_float E x) (to_float E y)))"
    and "arithmetic E ArithmeticMul l r =
        Inr (VFloat (float_mul E (to_float E x) (to_float E y)))"
    by (simp_all add: arithmetic_def degrade_floats [OF c])
  {
    assume "to_float E y \<noteq> float_zero E"
    then show "arithmetic E ArithmeticMod l r =
           Inr (VFloat (float_mod E (to_float E x) (to_float E y)))"
      by (simp add: arithmetic_def degrade_floats [OF c])
  }
  assume "\<not> is_string (snd l) \<and> \<not> is_string (snd r)"
  then show "arithmetic E ArithmeticAdd l r =
           Inr (VFloat (float_add E (to_float E x) (to_float E y)))"
    by (simp add: add_not_strings degrade_floats [OF c])
next
  assume "op_String E ArithmeticAdd = ''add'' \<and> is_string (snd l) \<and>
    kind_name (snd r) = ''number''"
  then show "arithmetic E ArithmeticAdd l r =
        Inl (''cannot add types string (from '' @ fst l @ '') and number (from '' @ fst r @
             '')'')"
    by (simp add: add_string_left number_not_string string_kind type_mismatch_def)
next
  assume "op_String E ArithmeticAdd = ''add'' \<and> kind_name (snd l) = ''number'' \<and>
    is_string (snd r)"
  then show "arithmetic E ArithmeticAdd l r =
        Inl (''cannot add types number (from '' @ fst l @ '') and string (from '' @ fst r @
             '')'')"
    by (simp add: add_string_right number_not_string string_kind type_mismatch_def)
qed

text \<open>
  Claim C6 on the examples of the specification: 12 + 3 on integers, 12.0 + 3, and
  a string added to a number.
\<close>

theorem number_degradation_witness:
  "arithmetic demo_env ArithmeticAdd (''left'', VInt 12) (''right'', VUint 3) = Inr (VInt 15) \<and>
   arithmetic demo_env ArithmeticMod (''left'', VInt 5) (''right'', VInt 2) = Inr (VInt 1) \<and>
   arithmetic demo_env ArithmeticAdd (''left'', VFloat 12) (''right'', VUint 3)
     = Inr (VFloat 15) \<and>
   arithmetic demo_env ArithmeticMul (''left'', VInt 2) (''right'', VFloat (5 / 2))
     = Inr (VFloat 5) \<and>
   arithmetic demo_env ArithmeticAdd (''left'', VString ''x'') (''right'', VInt 3)
     = Inl ''cannot add types string (from left) and number (from right)'' \<and>
   arithmetic demo_env ArithmeticAdd (''left'', VInt 3) (''right'', VString ''x'')
     = Inl ''cannot add types number (from left) and string (from right)''"
proof -
  note T = number_degradation [where E = demo_env]
  have "arithmetic demo_env ArithmeticAdd (''left'', VInt 12) (''right'', VUint 3)
          = Inr (VInt (12 + 3))"
    by (rule T [where l = "(''left'', VInt 12)" and r = "(''right'', VUint 3)"
          and a = 12 and b = 3, THEN conjunct1, THEN mp, THEN conjunct1, THEN mp]) simp_all
  then have c1: "arithmetic demo_env ArithmeticAdd (''left'', VInt 12) (''right'', VUint 3)
          = Inr (VInt 15)" by simp
  have "arithmetic demo_env ArithmeticMod (''left'', VInt 5) (''right'', VInt 2)
          = Inr (VInt (int64_rem 5 2))"
    by (rule T [where l = "(''left'', VInt 5)" and r = "(''right'', VInt 2)"
          and a = 5 and b = 2, THEN conjunct1, THEN mp, THEN conjunct2, THEN conjunct2,
          THEN conjunct2, THEN mp]) simp_all
  then have c2: "arithmetic demo_env ArithmeticMod (''left'', VInt 5) (''right'', VInt 2)
          = Inr (VInt 1)"
    by (simp add: int64_rem_def signed_modulo_int_def)
  have "arithmetic demo_env ArithmeticAdd (''left'', VFloat 12) (''right'', VUint 3)
          = Inr (VFloat (float_add demo_env (to_float demo_env (NFloat 12))
                           (to_float demo_env (NInt 3))))"
    by (rule T [where l = "(''left'', VFloat 12)" and r = "(''right'', VUint 3)"
          and x = "NFloat 12" and y = "NInt 3", THEN conjunct2, THEN conjunct1, THEN mp,
          THEN conjunct1, THEN mp]) simp_all
  then have c3: "arithmetic demo_env ArithmeticAdd (''left'', VFloat 12) (''right'', VUint 3)
          = Inr (VFloat 15)"
    by (simp add: demo_env_def)
  have "arithmetic demo_env ArithmeticMul (''left'', VInt 2) (''right'', VFloat (5 / 2))
          = Inr (VFloat (float_mul demo_env (to_float demo_env (NInt 2))
                           (to_float demo_env (NFloat (5 / 2)))))"
    by (rule T [where l = "(''left'', VInt 2)" and r = "(''right'', VFloat (5 / 2))"
          and x = "NInt 2" and y = "NFloat (5 / 2)", THEN conjunct2, THEN conjunct1, THEN mp,
          THEN conjunct2, THEN conjunct2, THEN conjunct1]) simp_all
  then have c4: "arithmetic demo_env ArithmeticMul (''left'', VInt 2) (''right'', VFloat (5 / 2))
          = Inr (VFloat 5)"
    by (simp add: demo_env_def)
  have "arithmetic demo_env ArithmeticAdd (''left'', VString ''x'') (''right'', VInt 3)
     = Inl (''cannot add types string (from '' @ fst (''left'', VString ''x'' :: rat val) @
            '') and number (from '' @ fst (''right'', VInt 3 :: rat val) @ '')'')"
    by (rule T [where l = "(''left'', VString ''x'')" and r = "(''right'', VInt 3)",
          THEN conjunct2, THEN conjunct2, THEN conjunct1, THEN mp])
       (simp add: demo_env_def)
  then have c5: "arithmetic demo_env ArithmeticAdd (''left'', VString ''x'') (''right'', VInt 3)
     = Inl ''cannot add types string (from left) and number (from right)''" by simp
  have "arithmetic demo_env ArithmeticAdd (''left'', VInt 3) (''right'', VString ''x'')
     = Inl (''cannot add types number (from '' @ fst (''left'', VInt 3 :: rat val) @
            '') and string (from '' @ fst (''right'', VString ''x'' :: rat val) @ '')'')"
    by (rule T [where l = "(''left'', VInt 3)" and r = "(''right'', VString ''x'')",
          THEN conjunct2, THEN conjunct2, THEN conjunct2, THEN mp])
       (simp add: demo_env_def)
  then have c6: "arithmetic demo_env ArithmeticAdd (''left'', VInt 3) (''right'', VString ''x'')
     = Inl ''cannot add types number (from left) and string (from right)''" by simp
  from c1 c2 c3 c4 c5 c6 show ?thesis by (intro conjI)
qed

end
